theory Spec2Isabelle
  imports Main "HOL-Library.AList" "HOL-Library.List_Lexorder"
begin

section \<open>Strings, bytes and JSON values\<close>

text \<open>
  The script \<^verbatim>\<open>update-catalog.py\<close> keeps one JSON document, the catalog, in an object
  store. A Python \<^verbatim>\<open>str\<close> is a sequence of Unicode code points and \<^verbatim>\<open>bytes\<close> a sequence
  of octets; both are lists of naturals here. Python compares strings code point by code
  point, a proper prefix being smaller, which is the order of \<open>List_Lexorder\<close>.
\<close>

type_synonym pystr = "nat list"
type_synonym bytes = "nat list"

definition str :: "string \<Rightarrow> pystr" where
  "str s = map of_char s"

text \<open>
  The values \<^verbatim>\<open>json.loads\<close> builds. A dict keeps its keys in insertion order, so an
  object is an association list; assigning to a key is \<open>AList.update\<close> (an existing key
  keeps its place, a new one goes to the end). A number literal with a fraction or an
  exponent, \<^verbatim>\<open>NaN\<close> and \<^verbatim>\<open>Infinity\<close> are Python floats: \<open>JFloat\<close> records that a float
  stands there, not which one.
\<close>

datatype json =
    JNull
  | JBool bool
  | JInt int
  | JFloat
  | JStr pystr
  | JArr "json list"
  | JObj "(pystr \<times> json) list"

subsection \<open>UTF-8, as \<^verbatim>\<open>bytes.decode('utf-8')\<close> and \<^verbatim>\<open>str.encode('utf-8')\<close>\<close>

definition cont :: "nat \<Rightarrow> bool" where
  "cont b = (0x80 \<le> b \<and> b \<le> 0xBF)"

fun utf8_decode :: "bytes \<Rightarrow> pystr option" where
  "utf8_decode [] = Some []"
| "utf8_decode (b0 # bs) =
     (if b0 < 0x80 then map_option ((#) b0) (utf8_decode bs)
      else if 0xC2 \<le> b0 \<and> b0 \<le> 0xDF then
        (case bs of
           b1 # r \<Rightarrow>
             if cont b1
             then map_option ((#) ((b0 - 0xC0) * 64 + (b1 - 0x80))) (utf8_decode r)
             else None
         | _ \<Rightarrow> None)
      else if 0xE0 \<le> b0 \<and> b0 \<le> 0xEF then
        (case bs of
           b1 # b2 # r \<Rightarrow>
             if cont b1 \<and> cont b2 \<and> (b0 = 0xE0 \<longrightarrow> 0xA0 \<le> b1) \<and> (b0 = 0xED \<longrightarrow> b1 \<le> 0x9F)
             then map_option ((#) ((b0 - 0xE0) * 4096 + (b1 - 0x80) * 64 + (b2 - 0x80)))
                    (utf8_decode r)
             else None
         | _ \<Rightarrow> None)
      else if 0xF0 \<le> b0 \<and> b0 \<le> 0xF4 then
        (case bs of
           b1 # b2 # b3 # r \<Rightarrow>
             if cont b1 \<and> cont b2 \<and> cont b3
                \<and> (b0 = 0xF0 \<longrightarrow> 0x90 \<le> b1) \<and> (b0 = 0xF4 \<longrightarrow> b1 \<le> 0x8F)
             then map_option
                    ((#) ((b0 - 0xF0) * 262144 + (b1 - 0x80) * 4096 + (b2 - 0x80) * 64
                          + (b3 - 0x80)))
                    (utf8_decode r)
             else None
         | _ \<Rightarrow> None)
      else None)"

fun utf8_encode :: "pystr \<Rightarrow> bytes option" where
  "utf8_encode [] = Some []"
| "utf8_encode (c # cs) =
     (if c < 0x80 then map_option ((#) c) (utf8_encode cs)
      else if c < 0x800 then
        map_option ((@) [0xC0 + c div 64, 0x80 + c mod 64]) (utf8_encode cs)
      else if 0xD800 \<le> c \<and> c \<le> 0xDFFF then None
      else if c < 0x10000 then
        map_option ((@) [0xE0 + c div 4096, 0x80 + c div 64 mod 64, 0x80 + c mod 64])
          (utf8_encode cs)
      else if c < 0x110000 then
        map_option
          ((@) [0xF0 + c div 262144, 0x80 + c div 4096 mod 64, 0x80 + c div 64 mod 64,
                0x80 + c mod 64])
          (utf8_encode cs)
      else None)"

subsection \<open>\<^verbatim>\<open>json.dumps(catalog, indent=2)\<close>\<close>

text \<open>
  With the default \<^verbatim>\<open>ensure_ascii=True\<close> every character outside the printable ASCII
  range is written as an escape, a code point above the basic plane as a surrogate pair.
\<close>

definition hex_digit :: "nat \<Rightarrow> nat" where
  "hex_digit d = (if d < 10 then 0x30 + d else 0x57 + d)"

definition hex4 :: "nat \<Rightarrow> pystr" where
  "hex4 n = [hex_digit (n div 4096 mod 16), hex_digit (n div 256 mod 16),
             hex_digit (n div 16 mod 16), hex_digit (n mod 16)]"

definition u_escape :: "nat \<Rightarrow> pystr" where
  "u_escape n = [0x5C, 0x75] @ hex4 n"

definition escape_char :: "nat \<Rightarrow> pystr" where
  "escape_char c =
     (if c = 0x5C then [0x5C, 0x5C]
      else if c = 0x22 then [0x5C, 0x22]
      else if c = 0x08 then [0x5C, 0x62]
      else if c = 0x0C then [0x5C, 0x66]
      else if c = 0x0A then [0x5C, 0x6E]
      else if c = 0x0D then [0x5C, 0x72]
      else if c = 0x09 then [0x5C, 0x74]
      else if 0x20 \<le> c \<and> c \<le> 0x7E then [c]
      else if c < 0x10000 then u_escape c
      else (let n = c - 0x10000
            in u_escape (0xD800 + n div 1024 mod 1024) @ u_escape (0xDC00 + n mod 1024)))"

definition encode_basestring_ascii :: "pystr \<Rightarrow> pystr" where
  "encode_basestring_ascii s = [0x22] @ concat (map escape_char s) @ [0x22]"

function digits :: "nat \<Rightarrow> pystr" where
  "digits n = (if n < 10 then [0x30 + n] else digits (n div 10) @ [0x30 + n mod 10])"
  by pat_completeness auto
termination
  by (relation "measure id") auto

definition int_repr :: "int \<Rightarrow> pystr" where
  "int_repr i = (if i < 0 then 0x2D # digits (nat (- i)) else digits (nat i))"

definition newline_indent :: "nat \<Rightarrow> pystr" where
  "newline_indent level = 0x0A # replicate (2 * level) 0x20"

text \<open>
  The encoder writes an empty list as \<^verbatim>\<open>[]\<close> and an empty dict as \<^verbatim>\<open>{}\<close>; otherwise each
  item stands on a line of its own, one level deeper, items separated by a comma, and the
  closing bracket on a line of its own at the level of the opening one. \<open>encode_items\<close>
  and \<open>encode_pairs\<close> write the items after the first. \<open>save_catalog\<close> below never passes
  a value holding a float to the encoder; the text written for \<open>JFloat\<close> is a placeholder.
\<close>

fun iterencode :: "nat \<Rightarrow> json \<Rightarrow> pystr"
  and encode_items :: "nat \<Rightarrow> json list \<Rightarrow> pystr"
  and encode_pairs :: "nat \<Rightarrow> (pystr \<times> json) list \<Rightarrow> pystr" where
  "iterencode level JNull = str ''null''"
| "iterencode level (JBool b) = (if b then str ''true'' else str ''false'')"
| "iterencode level (JInt i) = int_repr i"
| "iterencode level JFloat = str ''NaN''"
| "iterencode level (JStr s) = encode_basestring_ascii s"
| "iterencode level (JArr []) = str ''[]''"
| "iterencode level (JArr (x # xs)) =
     [0x5B] @ newline_indent (Suc level) @ iterencode (Suc level) x
     @ encode_items (Suc level) xs @ newline_indent level @ [0x5D]"
| "iterencode level (JObj []) = str ''{}''"
| "iterencode level (JObj ((k, v) # kvs)) =
     [0x7B] @ newline_indent (Suc level) @ encode_basestring_ascii k @ [0x3A, 0x20]
     @ iterencode (Suc level) v
     @ encode_pairs (Suc level) kvs @ newline_indent level @ [0x7D]"
| "encode_items level [] = []"
| "encode_items level (x # xs) =
     [0x2C] @ newline_indent level @ iterencode level x @ encode_items level xs"
| "encode_pairs level [] = []"
| "encode_pairs level ((k, v) # kvs) =
     [0x2C] @ newline_indent level @ encode_basestring_ascii k @ [0x3A, 0x20]
     @ iterencode level v @ encode_pairs level kvs"

definition json_dumps :: "json \<Rightarrow> pystr" where
  "json_dumps v = iterencode 0 v"

subsection \<open>\<^verbatim>\<open>json.loads\<close>\<close>

definition is_ws :: "nat \<Rightarrow> bool" where
  "is_ws c = (c = 0x20 \<or> c = 0x09 \<or> c = 0x0A \<or> c = 0x0D)"

definition skip_ws :: "pystr \<Rightarrow> pystr" where
  "skip_ws s = dropWhile is_ws s"

definition is_digit :: "nat \<Rightarrow> bool" where
  "is_digit c = (0x30 \<le> c \<and> c \<le> 0x39)"

definition hex_val :: "nat \<Rightarrow> nat option" where
  "hex_val c =
     (if 0x30 \<le> c \<and> c \<le> 0x39 then Some (c - 0x30)
      else if 0x61 \<le> c \<and> c \<le> 0x66 then Some (c - 0x57)
      else if 0x41 \<le> c \<and> c \<le> 0x46 then Some (c - 0x37)
      else None)"

definition decode_uXXXX :: "pystr \<Rightarrow> nat option" where
  "decode_uXXXX s =
     (case s of
        a # b # c # d # _ \<Rightarrow>
          (case (hex_val a, hex_val b, hex_val c, hex_val d) of
             (Some x, Some y, Some z, Some w) \<Rightarrow> Some (x * 4096 + y * 256 + z * 16 + w)
           | _ \<Rightarrow> None)
      | _ \<Rightarrow> None)"

definition backslash :: "nat \<Rightarrow> nat option" where
  "backslash e =
     (if e = 0x22 then Some 0x22
      else if e = 0x5C then Some 0x5C
      else if e = 0x2F then Some 0x2F
      else if e = 0x62 then Some 0x08
      else if e = 0x66 then Some 0x0C
      else if e = 0x6E then Some 0x0A
      else if e = 0x72 then Some 0x0D
      else if e = 0x74 then Some 0x09
      else None)"

definition consume :: "nat \<Rightarrow> (pystr \<times> pystr) option \<Rightarrow> (pystr \<times> pystr) option" where
  "consume c r = map_option (\<lambda>(s, rest). (c # s, rest)) r"

text \<open>
  \<open>scanstring\<close> reads a string literal from just after its opening quote and returns the
  string and the text after the closing quote. A high surrogate escape directly followed
  by a low surrogate escape is one code point.
\<close>

function scanstring :: "pystr \<Rightarrow> (pystr \<times> pystr) option" where
  "scanstring [] = None"
| "scanstring (c # cs) =
     (if c = 0x22 then Some ([], cs)
      else if c = 0x5C then
        (case cs of
           [] \<Rightarrow> None
         | e # r \<Rightarrow>
             if e = 0x75 then
               (case decode_uXXXX r of
                  None \<Rightarrow> None
                | Some uni \<Rightarrow>
                    if 0xD800 \<le> uni \<and> uni \<le> 0xDBFF \<and> take 2 (drop 4 r) = [0x5C, 0x75] then
                      (case decode_uXXXX (drop 6 r) of
                         None \<Rightarrow> None
                       | Some uni2 \<Rightarrow>
                           if 0xDC00 \<le> uni2 \<and> uni2 \<le> 0xDFFF
                           then consume (0x10000 + ((uni - 0xD800) * 1024 + (uni2 - 0xDC00)))
                                  (scanstring (drop 10 r))
                           else consume uni (scanstring (drop 4 r)))
                    else consume uni (scanstring (drop 4 r)))
             else
               (case backslash e of
                  None \<Rightarrow> None
                | Some x \<Rightarrow> consume x (scanstring r)))
      else if c < 0x20 then None
      else consume c (scanstring cs))"
  by pat_completeness auto
termination
  by (relation "measure length") auto

text \<open>
  The number pattern of the decoder:
  \<^verbatim>\<open>(-?(?:0|[1-9][0-9]*))(\.[0-9]+)?([eE][-+]?[0-9]+)?\<close>. An optional part that does not
  match is left unread. With a fraction or an exponent the literal is a float.
\<close>

fun digits_val :: "nat \<Rightarrow> pystr \<Rightarrow> nat" where
  "digits_val acc [] = acc"
| "digits_val acc (d # ds) = digits_val (acc * 10 + (d - 0x30)) ds"

definition match_integer :: "pystr \<Rightarrow> (pystr \<times> pystr) option" where
  "match_integer s =
     (case s of
        [] \<Rightarrow> None
      | c # cs \<Rightarrow>
          if c = 0x30 then Some ([c], cs)
          else if 0x31 \<le> c \<and> c \<le> 0x39
          then Some (c # takeWhile is_digit cs, dropWhile is_digit cs)
          else None)"

definition match_frac :: "pystr \<Rightarrow> pystr option" where
  "match_frac s =
     (case s of
        c # d # r \<Rightarrow> if c = 0x2E \<and> is_digit d then Some (dropWhile is_digit r) else None
      | _ \<Rightarrow> None)"

definition match_exp :: "pystr \<Rightarrow> pystr option" where
  "match_exp s =
     (case s of
        c # r \<Rightarrow>
          if c = 0x65 \<or> c = 0x45 then
            (case r of
               d # r' \<Rightarrow>
                 if is_digit d then Some (dropWhile is_digit r')
                 else if d = 0x2B \<or> d = 0x2D then
                   (case r' of
                      d' # r'' \<Rightarrow> if is_digit d' then Some (dropWhile is_digit r'') else None
                    | _ \<Rightarrow> None)
                 else None
             | _ \<Rightarrow> None)
          else None
      | _ \<Rightarrow> None)"

definition match_number :: "pystr \<Rightarrow> (json \<times> pystr) option" where
  "match_number s =
     (let (neg, s1) = (case s of c # cs \<Rightarrow> if c = 0x2D then (True, cs) else (False, s)
                       | [] \<Rightarrow> (False, s))
      in case match_integer s1 of
           None \<Rightarrow> None
         | Some (ds, r) \<Rightarrow>
             (case match_frac r of
                Some r1 \<Rightarrow>
                  (case match_exp r1 of Some r2 \<Rightarrow> Some (JFloat, r2) | None \<Rightarrow> Some (JFloat, r1))
              | None \<Rightarrow>
                  (case match_exp r of
                     Some r2 \<Rightarrow> Some (JFloat, r2)
                   | None \<Rightarrow>
                       Some (JInt (if neg then - int (digits_val 0 ds) else int (digits_val 0 ds)),
                             r))))"

definition literal :: "string \<Rightarrow> pystr \<Rightarrow> pystr option" where
  "literal w s = (if take (length w) s = str w then Some (drop (length w) s) else None)"

definition dict :: "(pystr \<times> json) list \<Rightarrow> (pystr \<times> json) list" where
  "dict pairs = foldl (\<lambda>d (k, v). AList.update k v d) [] pairs"

text \<open>
  The scanner. \<open>scan_once\<close> reads one value at the head of the text; \<open>JSONArray\<close> and
  \<open>JSONObject\<close> are the loops of the decoder, entered where an item (a key) is expected.
  The first argument bounds the number of calls; \<open>json_loads\<close> starts with more than the
  length of the text. A duplicate key keeps its first position and its last value, as
  \<^verbatim>\<open>dict(pairs)\<close> does.
\<close>

fun scan_once :: "nat \<Rightarrow> pystr \<Rightarrow> (json \<times> pystr) option"
  and JSONArray :: "nat \<Rightarrow> pystr \<Rightarrow> (json list \<times> pystr) option"
  and JSONObject :: "nat \<Rightarrow> pystr \<Rightarrow> ((pystr \<times> json) list \<times> pystr) option" where
  "scan_once 0 s = None"
| "scan_once (Suc n) [] = None"
| "scan_once (Suc n) (c # cs) =
     (if c = 0x22 then map_option (\<lambda>(k, r). (JStr k, r)) (scanstring cs)
      else if c = 0x7B then
        (case skip_ws cs of
           [] \<Rightarrow> None
         | d # r \<Rightarrow>
             if d = 0x7D then Some (JObj [], r)
             else if d = 0x22 then map_option (\<lambda>(ps, r'). (JObj (dict ps), r')) (JSONObject n r)
             else None)
      else if c = 0x5B then
        (case skip_ws cs of
           [] \<Rightarrow> None
         | d # r \<Rightarrow>
             if d = 0x5D then Some (JArr [], r)
             else map_option (\<lambda>(xs, r'). (JArr xs, r')) (JSONArray n (d # r)))
      else if c = 0x6E \<and> literal ''null'' (c # cs) \<noteq> None
        then Some (JNull, drop 4 (c # cs))
      else if c = 0x74 \<and> literal ''true'' (c # cs) \<noteq> None
        then Some (JBool True, drop 4 (c # cs))
      else if c = 0x66 \<and> literal ''false'' (c # cs) \<noteq> None
        then Some (JBool False, drop 5 (c # cs))
      else
        (case match_number (c # cs) of
           Some res \<Rightarrow> Some res
         | None \<Rightarrow>
             if c = 0x4E \<and> literal ''NaN'' (c # cs) \<noteq> None
               then Some (JFloat, drop 3 (c # cs))
             else if c = 0x49 \<and> literal ''Infinity'' (c # cs) \<noteq> None
               then Some (JFloat, drop 8 (c # cs))
             else if c = 0x2D \<and> literal ''-Infinity'' (c # cs) \<noteq> None
               then Some (JFloat, drop 9 (c # cs))
             else None))"
| "JSONArray 0 s = None"
| "JSONArray (Suc n) s =
     (case scan_once n s of
        None \<Rightarrow> None
      | Some (v, r) \<Rightarrow>
          (case skip_ws r of
             [] \<Rightarrow> None
           | d # r' \<Rightarrow>
               if d = 0x5D then Some ([v], r')
               else if d = 0x2C
               then map_option (\<lambda>(vs, r''). (v # vs, r'')) (JSONArray n (skip_ws r'))
               else None))"
| "JSONObject 0 s = None"
| "JSONObject (Suc n) s =
     (case scanstring s of
        None \<Rightarrow> None
      | Some (key, r) \<Rightarrow>
          (case skip_ws r of
             [] \<Rightarrow> None
           | c # r1 \<Rightarrow>
               if c \<noteq> 0x3A then None
               else
                 (case scan_once n (skip_ws r1) of
                    None \<Rightarrow> None
                  | Some (v, r2) \<Rightarrow>
                      (case skip_ws r2 of
                         [] \<Rightarrow> None
                       | d # r3 \<Rightarrow>
                           if d = 0x7D then Some ([(key, v)], r3)
                           else if d = 0x2C then
                             (case skip_ws r3 of
                                [] \<Rightarrow> None
                              | q # r4 \<Rightarrow>
                                  if q = 0x22
                                  then map_option (\<lambda>(ps, r5). ((key, v) # ps, r5))
                                         (JSONObject n r4)
                                  else None)
                           else None))))"

definition json_loads :: "pystr \<Rightarrow> json option" where
  "json_loads s =
     (if take 1 s = [0xFEFF] then None
      else
        (case scan_once (Suc (length s)) (skip_ws s) of
           None \<Rightarrow> None
         | Some (v, r) \<Rightarrow> if skip_ws r = [] then Some v else None))"

section \<open>The object store\<close>

text \<open>
  The script talks to the store through a client with two calls, \<^verbatim>\<open>get_object\<close> and
  \<^verbatim>\<open>put_object\<close>. The client is modelled by the objects it holds, by the exception (if
  any) that a read and a write raise, whatever the store holds, and by the log of the
  \<^verbatim>\<open>put_object\<close> calls made so far. An exception of the client is named by its message.
\<close>

datatype py_error =
    StoreFailure pystr
  | KeyError
  | TypeError
  | AttributeError
  | IndexError
  | UnicodeEncodeError
  | Unmodelled

record put_call =
  put_bucket :: pystr
  put_key :: pystr
  put_data :: bytes
  put_length :: nat
  put_content_type :: pystr

record client =
  objects :: "pystr \<times> pystr \<Rightarrow> (bytes \<times> pystr) option"
  get_failure :: "pystr option"
  put_failure :: "pystr option"
  put_calls :: "put_call list"

definition get_object :: "client \<Rightarrow> pystr \<Rightarrow> pystr \<Rightarrow> py_error + bytes" where
  "get_object c bucket key =
     (case get_failure c of
        Some e \<Rightarrow> Inl (StoreFailure e)
      | None \<Rightarrow>
          (case objects c (bucket, key) of
             None \<Rightarrow> Inl (StoreFailure (str ''NoSuchKey''))
           | Some (data, ct) \<Rightarrow> Inr data))"

definition put_object ::
  "client \<Rightarrow> pystr \<Rightarrow> pystr \<Rightarrow> bytes \<Rightarrow> nat \<Rightarrow> pystr \<Rightarrow> (py_error + unit) \<times> client" where
  "put_object c bucket key data len ct =
     (let call = \<lparr>put_bucket = bucket, put_key = key, put_data = data, put_length = len,
                   put_content_type = ct\<rparr>;
          c' = c\<lparr>put_calls := put_calls c @ [call]\<rparr>
      in case put_failure c of
           Some e \<Rightarrow> (Inl (StoreFailure e), c')
         | None \<Rightarrow> (Inr (), c'\<lparr>objects := (objects c)((bucket, key) \<mapsto> (data, ct))\<rparr>))"

section \<open>Python operations on JSON values\<close>

text \<open>
  The script reads the loaded document with \<^verbatim>\<open>x["key"]\<close>, \<^verbatim>\<open>x.get\<close>, \<^verbatim>\<open>len\<close>, iteration,
  truth value and \<^verbatim>\<open>append\<close>, on whatever \<^verbatim>\<open>json.loads\<close> returned. Each is given with the
  exception Python raises on a value of the wrong type. \<open>Unmodelled\<close> marks the places
  where the outcome depends on the value of a float, on comparing values that are not
  strings, or on formatting a value that is not a string.
\<close>

fun getitem :: "json \<Rightarrow> pystr \<Rightarrow> py_error + json" where
  "getitem (JObj kvs) k = (case map_of kvs k of None \<Rightarrow> Inl KeyError | Some v \<Rightarrow> Inr v)"
| "getitem _ k = Inl TypeError"

fun dict_get :: "json \<Rightarrow> pystr \<Rightarrow> json \<Rightarrow> py_error + json" where
  "dict_get (JObj kvs) k d = (case map_of kvs k of None \<Rightarrow> Inr d | Some v \<Rightarrow> Inr v)"
| "dict_get _ k d = Inl AttributeError"

fun setitem :: "json \<Rightarrow> pystr \<Rightarrow> json \<Rightarrow> py_error + json" where
  "setitem (JObj kvs) k v = Inr (JObj (AList.update k v kvs))"
| "setitem _ k v = Inl TypeError"

fun iter :: "json \<Rightarrow> py_error + json list" where
  "iter (JArr xs) = Inr xs"
| "iter (JStr s) = Inr (map (\<lambda>c. JStr [c]) s)"
| "iter (JObj kvs) = Inr (map (\<lambda>kv. JStr (fst kv)) kvs)"
| "iter _ = Inl TypeError"

fun len :: "json \<Rightarrow> py_error + nat" where
  "len (JArr xs) = Inr (length xs)"
| "len (JStr s) = Inr (length s)"
| "len (JObj kvs) = Inr (length kvs)"
| "len _ = Inl TypeError"

fun truth :: "json \<Rightarrow> py_error + bool" where
  "truth JNull = Inr False"
| "truth (JBool b) = Inr b"
| "truth (JInt i) = Inr (i \<noteq> 0)"
| "truth JFloat = Inl Unmodelled"
| "truth (JStr s) = Inr (s \<noteq> [])"
| "truth (JArr xs) = Inr (xs \<noteq> [])"
| "truth (JObj kvs) = Inr (kvs \<noteq> [])"

fun has_float :: "json \<Rightarrow> bool" where
  "has_float JFloat = True"
| "has_float (JArr xs) = (\<exists>x \<in> set xs. has_float x)"
| "has_float (JObj kvs) = (\<exists>kv \<in> set kvs. has_float (snd kv))"
| "has_float _ = False"

fun getindex :: "json \<Rightarrow> nat \<Rightarrow> py_error + json" where
  "getindex (JArr xs) i = (if i < length xs then Inr (xs ! i) else Inl IndexError)"
| "getindex (JStr s) i = (if i < length s then Inr (JStr [s ! i]) else Inl IndexError)"
| "getindex (JObj kvs) i = Inl KeyError"
| "getindex _ i = Inl TypeError"

fun setindex :: "json \<Rightarrow> nat \<Rightarrow> json \<Rightarrow> py_error + json" where
  "setindex (JArr xs) i v = (if i < length xs then Inr (JArr (xs[i := v])) else Inl IndexError)"
| "setindex (JObj kvs) i v = Inl Unmodelled"
| "setindex _ i v = Inl TypeError"

fun list_append :: "json \<Rightarrow> json \<Rightarrow> py_error + json" where
  "list_append (JArr xs) v = Inr (JArr (xs @ [v]))"
| "list_append _ v = Inl AttributeError"

text \<open>An exception ends the computation: \<open>bind\<close> runs the rest only on a result.\<close>

fun bind :: "py_error + 'a \<Rightarrow> ('a \<Rightarrow> py_error + 'b) \<Rightarrow> py_error + 'b" where
  "bind (Inl e) f = Inl e"
| "bind (Inr x) f = f x"

section \<open>The script\<close>

definition MINIO_BUCKET :: pystr where
  "MINIO_BUCKET = str ''daedalus''"

definition CATALOG_FILE :: pystr where
  "CATALOG_FILE = str ''catalog.json''"

definition empty_catalog :: json where
  "empty_catalog = JObj [(str ''apps'', JArr [])]"

text \<open>
  \<open>load_catalog\<close>: the object is read, decoded and parsed inside one \<^verbatim>\<open>try\<close>; every
  exception gives the empty catalog.
\<close>

definition load_catalog :: "client \<Rightarrow> json" where
  "load_catalog c =
     (case get_object c MINIO_BUCKET CATALOG_FILE of
        Inl e \<Rightarrow> empty_catalog
      | Inr raw \<Rightarrow>
          (case utf8_decode raw of
             None \<Rightarrow> empty_catalog
           | Some text \<Rightarrow>
               (case json_loads text of
                  None \<Rightarrow> empty_catalog
                | Some data \<Rightarrow> data)))"

text \<open>
  \<open>save_catalog\<close>: one \<^verbatim>\<open>put_object\<close> call with the encoded document, its length and the
  content type; an exception of the call is not caught.
\<close>

definition save_catalog :: "client \<Rightarrow> json \<Rightarrow> (py_error + unit) \<times> client" where
  "save_catalog c catalog =
     (if has_float catalog then (Inl Unmodelled, c)
      else
        (case utf8_encode (json_dumps catalog) of
           None \<Rightarrow> (Inl UnicodeEncodeError, c)
         | Some data \<Rightarrow>
             put_object c MINIO_BUCKET CATALOG_FILE data (length data)
               (str ''application/json'')))"

subsection \<open>\<^verbatim>\<open>add_app\<close>\<close>

text \<open>
  The loop of lines 71 to 75: the index of the first entry whose \<^verbatim>\<open>id\<close> equals the given
  one. An entry before it that has no \<^verbatim>\<open>id\<close> raises.
\<close>

fun find_existing :: "json list \<Rightarrow> pystr \<Rightarrow> nat \<Rightarrow> py_error + nat option" where
  "find_existing [] app_id idx = Inr None"
| "find_existing (app # rest) app_id idx =
     bind (getitem app (str ''id''))
       (\<lambda>v. if v = JStr app_id then Inr (Some idx) else find_existing rest app_id (Suc idx))"

definition new_entry ::
  "pystr \<Rightarrow> pystr \<Rightarrow> pystr \<Rightarrow> pystr \<Rightarrow> pystr \<Rightarrow> bool \<Rightarrow> pystr \<Rightarrow> (pystr \<times> json) list" where
  "new_entry app_id name icon description path featured now =
     [(str ''id'', JStr app_id),
      (str ''name'', JStr name),
      (str ''icon'', JStr icon),
      (str ''description'', JStr description),
      (str ''path'', JStr path),
      (str ''featured'', JBool featured),
      (str ''created_at'', JStr now)]"

text \<open>
  Lines 70 to 95 on the loaded catalog: the catalog that is saved and the word of the
  message. The clock is read once for \<^verbatim>\<open>created_at\<close> (\<open>now1\<close>, line 84) and once more on an
  update (\<open>now2\<close>, line 90). The list of entries is changed in place inside the catalog, so
  the key \<^verbatim>\<open>apps\<close> keeps its position.
\<close>

definition add_app_catalog ::
  "pystr \<Rightarrow> pystr \<Rightarrow> json \<Rightarrow> pystr \<Rightarrow> pystr \<Rightarrow> pystr \<Rightarrow> pystr \<Rightarrow> pystr \<Rightarrow> bool
   \<Rightarrow> py_error + (json \<times> string)" where
  "add_app_catalog now1 now2 catalog app_id name icon description path featured =
     bind (getitem catalog (str ''apps'')) (\<lambda>apps.
     bind (iter apps) (\<lambda>items.
     bind (find_existing items app_id 0) (\<lambda>existing_idx.
       let app_entry = new_entry app_id name icon description path featured now1 in
       case existing_idx of
         Some idx \<Rightarrow>
           bind (getindex apps idx) (\<lambda>old.
           bind (dict_get old (str ''created_at'') (JStr now1)) (\<lambda>created.
             let app_entry1 = AList.update (str ''created_at'') created app_entry;
                 app_entry2 = AList.update (str ''updated_at'') (JStr now2) app_entry1
             in bind (setindex apps idx (JObj app_entry2)) (\<lambda>apps'.
                bind (setitem catalog (str ''apps'') apps') (\<lambda>catalog'.
                  Inr (catalog', ''Updated'')))))
       | None \<Rightarrow>
           bind (list_append apps (JObj app_entry)) (\<lambda>apps'.
           bind (setitem catalog (str ''apps'') apps') (\<lambda>catalog'.
             Inr (catalog', ''Added''))))))"

text \<open>
  A run of a function of the script gives its result or the exception it raised, the
  lines it printed and the client afterwards.
\<close>

definition add_app ::
  "pystr \<Rightarrow> pystr \<Rightarrow> client \<Rightarrow> pystr \<Rightarrow> pystr \<Rightarrow> pystr \<Rightarrow> pystr \<Rightarrow> pystr \<Rightarrow> bool
   \<Rightarrow> (py_error + bool) \<times> pystr list \<times> client" where
  "add_app now1 now2 c app_id name icon description path featured =
     (case add_app_catalog now1 now2 (load_catalog c) app_id name icon description path
             featured of
        Inl e \<Rightarrow> (Inl e, [], c)
      | Inr (catalog, action) \<Rightarrow>
          (case save_catalog c catalog of
             (Inl e, c') \<Rightarrow> (Inl e, [], c')
           | (Inr u, c') \<Rightarrow>
               (Inr True,
                [str action @ str '' app: '' @ name @ str '' ('' @ app_id @ str '')''],
                c')))"

subsection \<open>\<^verbatim>\<open>remove_app\<close>\<close>

text \<open>The comprehension of line 107: every entry is asked for its \<^verbatim>\<open>id\<close>.\<close>

fun others :: "json list \<Rightarrow> pystr \<Rightarrow> py_error + json list" where
  "others [] app_id = Inr []"
| "others (app # rest) app_id =
     bind (getitem app (str ''id''))
       (\<lambda>v. bind (others rest app_id)
          (\<lambda>kept. Inr (if v \<noteq> JStr app_id then app # kept else kept)))"

definition remove_app_catalog :: "json \<Rightarrow> pystr \<Rightarrow> py_error + (json \<times> bool)" where
  "remove_app_catalog catalog app_id =
     bind (getitem catalog (str ''apps'')) (\<lambda>apps.
     bind (len apps) (\<lambda>original_count.
     bind (iter apps) (\<lambda>items.
     bind (others items app_id) (\<lambda>kept.
     bind (setitem catalog (str ''apps'') (JArr kept)) (\<lambda>catalog'.
       Inr (catalog', length kept < original_count))))))"

definition remove_app ::
  "client \<Rightarrow> pystr \<Rightarrow> (py_error + bool) \<times> pystr list \<times> client" where
  "remove_app c app_id =
     (case remove_app_catalog (load_catalog c) app_id of
        Inl e \<Rightarrow> (Inl e, [], c)
      | Inr (catalog, removed) \<Rightarrow>
          if removed then
            (case save_catalog c catalog of
               (Inl e, c') \<Rightarrow> (Inl e, [], c')
             | (Inr u, c') \<Rightarrow> (Inr True, [str ''Removed app: '' @ app_id], c'))
          else (Inr False, [str ''App not found: '' @ app_id], c))"

subsection \<open>\<^verbatim>\<open>list_apps\<close>\<close>

text \<open>
  The key of line 129, \<^verbatim>\<open>x.get("created_at", "")\<close>, is computed for every entry before
  anything is compared. \<^verbatim>\<open>sorted\<close> is a stable sort; on string keys it is \<open>sort_key\<close>
  with the order of the code points. A list of at most one entry is returned as it is,
  nothing being compared; what Python does when it compares keys that are not all
  strings is not modelled.
\<close>

fun created_keys :: "json list \<Rightarrow> py_error + json list" where
  "created_keys [] = Inr []"
| "created_keys (x # xs) =
     bind (dict_get x (str ''created_at'') (JStr []))
       (\<lambda>k. bind (created_keys xs) (\<lambda>ks. Inr (k # ks)))"

fun is_str :: "json \<Rightarrow> bool" where
  "is_str (JStr s) = True"
| "is_str _ = False"

fun created_key :: "json \<Rightarrow> pystr" where
  "created_key (JObj kvs) =
     (case map_of kvs (str ''created_at'') of Some (JStr s) \<Rightarrow> s | _ \<Rightarrow> [])"
| "created_key _ = []"

definition sorted_apps :: "json list \<Rightarrow> py_error + json list" where
  "sorted_apps items =
     bind (created_keys items) (\<lambda>keys.
       if list_all is_str keys then Inr (sort_key created_key items)
       else if length items \<le> 1 then Inr items
       else Inl Unmodelled)"

definition ljust :: "nat \<Rightarrow> pystr \<Rightarrow> pystr" where
  "ljust width s = s @ replicate (width - length s) 0x20"

fun format_str :: "nat \<Rightarrow> json \<Rightarrow> py_error + pystr" where
  "format_str width (JStr s) = Inr (ljust width s)"
| "format_str width _ = Inl Unmodelled"

definition row :: "json \<Rightarrow> py_error + pystr" where
  "row app =
     bind (getitem app (str ''id'')) (\<lambda>v1.
     bind (format_str 20 v1) (\<lambda>f1.
     bind (dict_get app (str ''icon'') (JStr (str ''?''))) (\<lambda>v2.
     bind (format_str 4 v2) (\<lambda>f2.
     bind (getitem app (str ''name'')) (\<lambda>v3.
     bind (format_str 25 v3) (\<lambda>f3.
     bind (getitem app (str ''path'')) (\<lambda>v4.
     bind (format_str 0 v4) (\<lambda>f4.
       Inr (f1 @ str '' '' @ f2 @ str '' '' @ f3 @ str '' '' @ f4)))))))))"

text \<open>The loop of lines 129 and 130 prints row after row and stops at an exception.\<close>

fun print_rows :: "json list \<Rightarrow> pystr list \<Rightarrow> (py_error + unit) \<times> pystr list" where
  "print_rows [] out = (Inr (), out)"
| "print_rows (app # rest) out =
     (case row app of
        Inl e \<Rightarrow> (Inl e, out)
      | Inr line \<Rightarrow> print_rows rest (out @ [line]))"

definition header :: "pystr list" where
  "header =
     [[0x0A] @ ljust 20 (str ''ID'') @ str '' '' @ ljust 4 (str ''Icon'') @ str '' ''
        @ ljust 25 (str ''Name'') @ str '' '' @ str ''Path'',
      replicate 80 0x2D]"

definition list_apps :: "client \<Rightarrow> (py_error + unit) \<times> pystr list" where
  "list_apps c =
     (let catalog = load_catalog c in
      case bind (getitem catalog (str ''apps'')) truth of
        Inl e \<Rightarrow> (Inl e, [])
      | Inr False \<Rightarrow> (Inr (), [str ''Catalog is empty''])
      | Inr True \<Rightarrow>
          (case bind (getitem catalog (str ''apps'')) (\<lambda>apps. bind (iter apps) sorted_apps) of
             Inl e \<Rightarrow> (Inl e, header)
           | Inr ordered \<Rightarrow>
               (case print_rows ordered header of
                  (Inl e, out) \<Rightarrow> (Inl e, out)
                | (Inr u, out) \<Rightarrow>
                    (case bind (getitem catalog (str ''apps'')) len of
                       Inl e \<Rightarrow> (Inl e, out)
                     | Inr n \<Rightarrow>
                         (Inr (), out @ [[0x0A] @ str ''Total: '' @ int_repr (int n)
                                           @ str '' apps''])))))"

subsection \<open>\<^verbatim>\<open>main\<close>\<close>

text \<open>The command line after \<^verbatim>\<open>argparse\<close>: one of the three subcommands.\<close>

datatype command =
    Add pystr pystr pystr pystr pystr bool
  | Remove pystr
  | List

fun main ::
  "pystr \<Rightarrow> pystr \<Rightarrow> client \<Rightarrow> command \<Rightarrow> (py_error + unit) \<times> pystr list \<times> client" where
  "main now1 now2 c (Add app_id name icon description path featured) =
     (case add_app now1 now2 c app_id name icon description path featured of
        (r, out, c') \<Rightarrow> (map_sum id (\<lambda>_. ()) r, out, c'))"
| "main now1 now2 c (Remove app_id) =
     (case remove_app c app_id of (r, out, c') \<Rightarrow> (map_sum id (\<lambda>_. ()) r, out, c'))"
| "main now1 now2 c List = (case list_apps c of (r, out) \<Rightarrow> (r, out, c))"

section \<open>Stores used as examples\<close>

definition store_missing :: client where
  "store_missing =
     \<lparr>objects = (\<lambda>_. None), get_failure = None, put_failure = None, put_calls = []\<rparr>"

definition store_with :: "bytes \<Rightarrow> client" where
  "store_with raw =
     \<lparr>objects = [(MINIO_BUCKET, CATALOG_FILE) \<mapsto> (raw, str ''application/json'')],
      get_failure = None, put_failure = None, put_calls = []\<rparr>"

section \<open>Notions used to state the properties\<close>

definition ascii :: "pystr \<Rightarrow> bool" where
  "ascii s = (\<forall>c \<in> set s. c < 0x80)"

text \<open>The one \<^verbatim>\<open>put_object\<close> call that \<open>save_catalog\<close> makes for a catalog.\<close>

definition json_put :: "json \<Rightarrow> put_call" where
  "json_put catalog =
     \<lparr>put_bucket = MINIO_BUCKET, put_key = CATALOG_FILE, put_data = json_dumps catalog,
      put_length = length (json_dumps catalog), put_content_type = str ''application/json''\<rparr>"


text \<open>
  An entry of the catalog is an object with a string under \<^verbatim>\<open>id\<close>; \<open>has_id\<close> is the test of
  line 73. \<open>with_apps\<close> is the catalog with another list under \<^verbatim>\<open>apps\<close>, \<open>after_put\<close>
  the client after a successful save, \<open>updated_entry\<close> the entry written over an old one.
\<close>

definition has_id :: "pystr \<Rightarrow> json \<Rightarrow> bool" where
  "has_id app_id x = (getitem x (str ''id'') = Inr (JStr app_id))"

definition is_entry :: "json \<Rightarrow> bool" where
  "is_entry x = (case getitem x (str ''id'') of Inr (JStr s) \<Rightarrow> True | _ \<Rightarrow> False)"

definition field :: "json \<Rightarrow> string \<Rightarrow> json option" where
  "field x k = (case x of JObj kvs \<Rightarrow> map_of kvs (str k) | _ \<Rightarrow> None)"

definition apps_of :: "json \<Rightarrow> json list option" where
  "apps_of catalog = (case field catalog ''apps'' of Some (JArr xs) \<Rightarrow> Some xs | _ \<Rightarrow> None)"

definition with_apps :: "json \<Rightarrow> json list \<Rightarrow> json" where
  "with_apps catalog xs =
     (case catalog of JObj kvs \<Rightarrow> JObj (AList.update (str ''apps'') (JArr xs) kvs) | _ \<Rightarrow> catalog)"

definition updated_entry ::
  "json \<Rightarrow> pystr \<Rightarrow> pystr \<Rightarrow> pystr \<Rightarrow> pystr \<Rightarrow> pystr \<Rightarrow> bool \<Rightarrow> pystr \<Rightarrow> pystr \<Rightarrow> json" where
  "updated_entry old app_id name icon description path featured now1 now2 =
     JObj [(str ''id'', JStr app_id),
      (str ''name'', JStr name),
      (str ''icon'', JStr icon),
      (str ''description'', JStr description),
      (str ''path'', JStr path),
      (str ''featured'', JBool featured),
      (str ''created_at'', (case field old ''created_at'' of Some t \<Rightarrow> t | None \<Rightarrow> JStr now1)),
      (str ''updated_at'', JStr now2)]"

definition after_put :: "client \<Rightarrow> json \<Rightarrow> client" where
  "after_put c catalog =
     c\<lparr>put_calls := put_calls c @ [json_put catalog],
       objects := (objects c)((MINIO_BUCKET, CATALOG_FILE) \<mapsto>
                    (json_dumps catalog, str ''application/json''))\<rparr>"

definition message :: "string \<Rightarrow> pystr \<Rightarrow> pystr \<Rightarrow> pystr" where
  "message action name app_id = str action @ str '' app: '' @ name @ str '' ('' @ app_id @ str '')''"

text \<open>
  The documents that \<^verbatim>\<open>json.loads\<close> reads back as they were written: no float, every
  string a sequence of code points in which no high surrogate stands directly before a low
  one (Python's decoder joins such a pair into one code point), and no key twice in an
  object. \<open>array_rest\<close> and \<open>object_rest\<close> are the loops of the decoder from the point
  after an item; \<open>delim\<close> holds of the text after a value inside a list or a dict.
\<close>

definition is_high :: "nat \<Rightarrow> bool" where "is_high c = (0xD800 \<le> c \<and> c \<le> 0xDBFF)"
definition is_low :: "nat \<Rightarrow> bool" where "is_low c = (0xDC00 \<le> c \<and> c \<le> 0xDFFF)"

fun wf_str :: "pystr \<Rightarrow> bool" where
  "wf_str [] = True"
| "wf_str [c] = (c < 0x110000)"
| "wf_str (c # d # cs) = (c < 0x110000 \<and> \<not> (is_high c \<and> is_low d) \<and> wf_str (d # cs))"

definition nolow :: "pystr \<Rightarrow> bool" where
  "nolow t = (take 2 t = [0x5C, 0x75] \<longrightarrow>
               (\<exists>u2. decode_uXXXX (drop 2 t) = Some u2 \<and> \<not> is_low u2))"

definition printable :: "nat \<Rightarrow> bool" where
  "printable c = (c \<in> {0x5C, 0x22, 0x08, 0x0C, 0x0A, 0x0D, 0x09} \<or> (0x20 \<le> c \<and> c \<le> 0x7E))"

definition delim :: "pystr \<Rightarrow> bool" where
  "delim rest = (case rest of [] \<Rightarrow> True | c # _ \<Rightarrow> c = 0x2C \<or> c = 0x0A)"

definition array_rest :: "nat \<Rightarrow> pystr \<Rightarrow> (json list \<times> pystr) option" where
  "array_rest n r =
     (case skip_ws r of
        [] \<Rightarrow> None
      | d # r' \<Rightarrow>
          if d = 0x5D then Some ([], r')
          else if d = 0x2C then JSONArray n (skip_ws r')
          else None)"

definition object_rest :: "nat \<Rightarrow> pystr \<Rightarrow> ((pystr \<times> json) list \<times> pystr) option" where
  "object_rest n r =
     (case skip_ws r of
        [] \<Rightarrow> None
      | d # r3 \<Rightarrow>
          if d = 0x7D then Some ([], r3)
          else if d = 0x2C then
            (case skip_ws r3 of
               [] \<Rightarrow> None
             | q # r4 \<Rightarrow> if q = 0x22 then JSONObject n r4 else None)
          else None)"

fun wf_json :: "json \<Rightarrow> bool" where
  "wf_json JFloat = False"
| "wf_json (JStr s) = wf_str s"
| "wf_json (JArr xs) = (\<forall>x \<in> set xs. wf_json x)"
| "wf_json (JObj kvs) =
     (distinct (map fst kvs) \<and> (\<forall>kv \<in> set kvs. wf_str (fst kv) \<and> wf_json (snd kv)))"
| "wf_json _ = True"

text \<open>A catalog with one entry, and the store that holds it.\<close>

definition weather :: json where
  "weather = JObj (new_entry (str ''weather'') (str ''Weather'') [0x2600, 0xFE0F]
     (str ''Shows weather'') (str ''/apps/weather/index.html'') False
     (str ''2026-01-01T00:00:00+00:00''))"

definition catalog_one :: json where
  "catalog_one = JObj [(str ''apps'', JArr [weather])]"

definition store_one :: client where
  "store_one = after_put store_missing catalog_one"

text \<open>The ids of the entries of a catalog are unique.\<close>

definition unique_ids :: "json list \<Rightarrow> bool" where
  "unique_ids xs = distinct (map (\<lambda>x. field x ''id'') xs)"

text \<open>
  An entry whose \<^verbatim>\<open>created_at\<close> is a string or is missing; the last line that \<open>list_apps\<close>
  prints; and a catalog of three entries that are not in the order of their dates, one of
  them without a date.
\<close>

definition dated :: "json \<Rightarrow> bool" where
  "dated x =
     (case x of
        JObj kvs \<Rightarrow> (case map_of kvs (str ''created_at'') of None \<Rightarrow> True | Some v \<Rightarrow> is_str v)
      | _ \<Rightarrow> False)"

definition total_line :: "nat \<Rightarrow> pystr" where
  "total_line n = [0x0A] @ str ''Total: '' @ int_repr (int n) @ str '' apps''"

definition clock :: json where
  "clock = JObj (new_entry (str ''clock'') (str ''Clock'') (str ''C'')
     (str ''Shows the time'') (str ''/apps/clock/index.html'') True
     (str ''2026-02-01T00:00:00+00:00''))"

definition legacy :: json where
  "legacy = JObj [(str ''id'', JStr (str ''legacy'')), (str ''name'', JStr (str ''Legacy'')),
     (str ''path'', JStr (str ''/apps/legacy/index.html''))]"

definition catalog_three :: json where
  "catalog_three = JObj [(str ''apps'', JArr [clock, legacy, weather])]"

definition store_three :: client where
  "store_three = after_put store_missing catalog_three"

section \<open>Properties of the script\<close>

subsection \<open>Loading\<close>

text \<open>
  C3. Whenever the fetch fails, \<open>load_catalog\<close> returns the empty catalog
  \<^verbatim>\<open>{"apps": []}\<close>: when the client raises (a network error, or no object under the key),
  when the bytes are not UTF-8, and when the text is not JSON. \<open>load_catalog\<close> returns a
  value in every case; it has no exception to raise.
\<close>

theorem load_catalog_fetch_failure:
  assumes "get_failure c \<noteq> None
     \<or> objects c (MINIO_BUCKET, CATALOG_FILE) = None
     \<or> (\<exists>raw ct. objects c (MINIO_BUCKET, CATALOG_FILE) = Some (raw, ct)
           \<and> (utf8_decode raw = None
                \<or> (\<exists>text. utf8_decode raw = Some text \<and> json_loads text = None)))"
  shows "load_catalog c = empty_catalog"
  using assms
  by (auto simp: load_catalog_def get_object_def split: option.splits sum.splits)

theorem load_catalog_fetch_failure_witness:
  "objects store_missing (MINIO_BUCKET, CATALOG_FILE) = None
   \<and> load_catalog store_missing = empty_catalog
   \<and> get_failure ((store_with (str ''{}''))\<lparr>get_failure := Some (str ''timed out'')\<rparr>) \<noteq> None
   \<and> load_catalog ((store_with (str ''{}''))\<lparr>get_failure := Some (str ''timed out'')\<rparr>)
       = empty_catalog
   \<and> utf8_decode [0xFF] = None
   \<and> load_catalog (store_with [0xFF]) = empty_catalog
   \<and> json_loads (str ''{'') = None
   \<and> load_catalog (store_with (str ''{'')) = empty_catalog"
proof -
  have h1: "objects store_missing (MINIO_BUCKET, CATALOG_FILE) = None"
    by (simp add: store_missing_def)
  have h2: "get_failure ((store_with (str ''{}''))\<lparr>get_failure := Some (str ''timed out'')\<rparr>)
              \<noteq> None"
    by simp
  have h3: "utf8_decode [0xFF] = None"
    by simp
  have o3: "objects (store_with [0xFF]) (MINIO_BUCKET, CATALOG_FILE)
              = Some ([0xFF], str ''application/json'')"
    by (simp add: store_with_def)
  have h4: "json_loads (str ''{'') = None"
    by (simp add: json_loads_def str_def skip_ws_def is_ws_def)
  have d4: "utf8_decode (str ''{'') = Some (str ''{'')"
    by (simp add: str_def)
  have o4: "objects (store_with (str ''{'')) (MINIO_BUCKET, CATALOG_FILE)
              = Some (str ''{'', str ''application/json'')"
    by (simp add: store_with_def)
  show ?thesis
    using h1 h2 h3 h4
      load_catalog_fetch_failure [of store_missing]
      load_catalog_fetch_failure
        [of "(store_with (str ''{}''))\<lparr>get_failure := Some (str ''timed out'')\<rparr>"]
      load_catalog_fetch_failure [of "store_with [0xFF]"]
      load_catalog_fetch_failure [of "store_with (str ''{'')"]
      o3 o4 d4
    by blast
qed

subsection \<open>The encoder writes ASCII\<close>

declare digits.simps [simp del]

lemma digits_small: "n < 10 \<Longrightarrow> digits n = [0x30 + n]"
  by (subst digits.simps) simp

lemma digits_large: "\<not> n < 10 \<Longrightarrow> digits n = digits (n div 10) @ [0x30 + n mod 10]"
  by (subst digits.simps) simp

lemma ascii_append [simp]: "ascii (a @ b) = (ascii a \<and> ascii b)"
  by (auto simp add: ascii_def)

lemma ascii_Cons [simp]: "ascii (c # s) = (c < 0x80 \<and> ascii s)"
  by (simp add: ascii_def)

lemma ascii_Nil [simp]: "ascii []"
  by (simp add: ascii_def)

lemma ascii_words [simp]:
  "ascii (str ''null'')" "ascii (str ''true'')" "ascii (str ''false'')"
  "ascii (str ''NaN'')" "ascii (str ''[]'')" "ascii (str ''{}'')"
  by (simp_all add: str_def)

lemma hex_digit_lt: "d < 16 \<Longrightarrow> hex_digit d < 0x80"
  by (simp add: hex_digit_def)

lemma ascii_hex4: "ascii (hex4 n)"
  by (simp add: hex4_def hex_digit_lt)

lemma ascii_u_escape: "ascii (u_escape n)"
  by (simp add: u_escape_def ascii_hex4)

lemma ascii_escape_char: "ascii (escape_char c)"
  unfolding escape_char_def Let_def
  by (simp add: ascii_u_escape)

lemma ascii_concat_escape: "ascii (concat (map escape_char s))"
  by (induction s) (simp_all add: ascii_escape_char)

lemma ascii_encode_basestring: "ascii (encode_basestring_ascii s)"
  by (simp add: encode_basestring_ascii_def ascii_concat_escape)

lemma ascii_digits: "ascii (digits n)"
proof (induction n rule: digits.induct)
  case (1 n)
  show ?case
  proof (cases "n < 10")
    case True
    then show ?thesis by (simp add: digits_small)
  next
    case False
    have "n mod 10 < 10" by simp
    then have "48 + n mod 10 < 128" by linarith
    with False 1 show ?thesis by (simp add: digits_large)
  qed
qed

lemma ascii_int_repr: "ascii (int_repr i)"
  by (simp add: int_repr_def ascii_digits)

lemma ascii_newline_indent: "ascii (newline_indent n)"
  by (simp add: newline_indent_def ascii_def)

lemma ascii_iterencode:
  "ascii (iterencode n v)" "ascii (encode_items n xs)" "ascii (encode_pairs n kvs)"
  by (induction n v and n xs and n kvs rule: iterencode_encode_items_encode_pairs.induct)
     (simp_all add: ascii_encode_basestring ascii_int_repr ascii_newline_indent)

lemma utf8_encode_ascii: "ascii s \<Longrightarrow> utf8_encode s = Some s"
  by (induction s) simp_all

lemma utf8_decode_ascii: "ascii s \<Longrightarrow> utf8_decode s = Some s"
  by (induction s) simp_all

lemma utf8_encode_dumps: "utf8_encode (json_dumps v) = Some (json_dumps v)"
  by (simp add: utf8_encode_ascii json_dumps_def ascii_iterencode)

lemma utf8_decode_dumps: "utf8_decode (json_dumps v) = Some (json_dumps v)"
  by (simp add: utf8_decode_ascii json_dumps_def ascii_iterencode)

subsection \<open>Saving\<close>

lemma save_catalog_eq:
  "\<not> has_float catalog \<Longrightarrow>
   save_catalog c catalog =
     (case put_failure c of
        Some e \<Rightarrow> (Inl (StoreFailure e), c\<lparr>put_calls := put_calls c @ [json_put catalog]\<rparr>)
      | None \<Rightarrow>
          (Inr (),
           c\<lparr>put_calls := put_calls c @ [json_put catalog],
             objects := (objects c)((MINIO_BUCKET, CATALOG_FILE) \<mapsto>
                          (json_dumps catalog, str ''application/json''))\<rparr>))"
  by (simp add: save_catalog_def utf8_encode_dumps put_object_def json_put_def Let_def
      split: option.splits)




subsection \<open>Adding and updating\<close>

lemma has_id_is_entry: "has_id a x \<Longrightarrow> is_entry x"
  by (simp add: has_id_def is_entry_def)

lemma is_entry_getitem: "is_entry x \<Longrightarrow> \<exists>s. getitem x (str ''id'') = Inr (JStr s)"
  by (auto simp: is_entry_def split: sum.splits json.splits)

lemma find_existing_none:
  "\<forall>x \<in> set xs. is_entry x \<and> \<not> has_id app_id x \<Longrightarrow> find_existing xs app_id k = Inr None"
proof (induction xs arbitrary: k)
  case Nil
  show ?case by simp
next
  case (Cons x xs)
  then obtain s where "getitem x (str ''id'') = Inr (JStr s)" "s \<noteq> app_id"
    using is_entry_getitem [of x] by (auto simp: has_id_def)
  with Cons show ?case by simp
qed

lemma find_existing_some:
  "i < length xs \<Longrightarrow> has_id app_id (xs ! i) \<Longrightarrow>
   \<forall>j < i. is_entry (xs ! j) \<and> \<not> has_id app_id (xs ! j) \<Longrightarrow>
   find_existing xs app_id k = Inr (Some (k + i))"
proof (induction xs arbitrary: k i)
  case Nil
  then show ?case by simp
next
  case (Cons x xs)
  show ?case
  proof (cases i)
    case 0
    with Cons.prems show ?thesis by (simp add: has_id_def)
  next
    case (Suc i')
    from Cons.prems Suc have x: "is_entry x" "\<not> has_id app_id x" by auto
    then obtain s where s: "getitem x (str ''id'') = Inr (JStr s)" "s \<noteq> app_id"
      using is_entry_getitem [of x] by (auto simp: has_id_def)
    have "find_existing xs app_id (Suc k) = Inr (Some (Suc k + i'))"
      using Cons.prems Suc by (intro Cons.IH) auto
    with s Suc show ?thesis by simp
  qed
qed

lemma str_eq_iff [simp]: "str a = str b \<longleftrightarrow> a = b"
  unfolding str_def by (rule inj_map_eq_map) (rule inj_of_char)

lemma add_app_catalog_update:
  assumes "field catalog ''apps'' = Some (JArr xs)"
    and "i < length xs" and "has_id app_id (xs ! i)"
    and "\<forall>j < i. is_entry (xs ! j) \<and> \<not> has_id app_id (xs ! j)"
  shows "add_app_catalog now1 now2 catalog app_id name icon description path featured
    = Inr (with_apps catalog
             (xs[i := updated_entry (xs ! i) app_id name icon description path featured now1 now2]),
           ''Updated'')"
proof -
  from assms(1) obtain kvs where c: "catalog = JObj kvs" "map_of kvs (str ''apps'') = Some (JArr xs)"
    by (auto simp: field_def split: json.splits)
  from assms(3) obtain f where f: "xs ! i = JObj f"
    by (cases "xs ! i") (auto simp: has_id_def)
  have fe: "find_existing xs app_id 0 = Inr (Some i)"
    using find_existing_some [OF assms(2,3,4), of 0] by simp
  show ?thesis
    using c f fe assms(2)
    by (simp add: add_app_catalog_def with_apps_def updated_entry_def new_entry_def field_def
        split: option.splits)
qed

lemma add_app_catalog_append:
  assumes "field catalog ''apps'' = Some (JArr xs)"
    and "\<forall>x \<in> set xs. is_entry x \<and> \<not> has_id app_id x"
  shows "add_app_catalog now1 now2 catalog app_id name icon description path featured
    = Inr (with_apps catalog
             (xs @ [JObj (new_entry app_id name icon description path featured now1)]),
           ''Added'')"
proof -
  from assms(1) obtain kvs where c: "catalog = JObj kvs" "map_of kvs (str ''apps'') = Some (JArr xs)"
    by (auto simp: field_def split: json.splits)
  have fe: "find_existing xs app_id 0 = Inr None"
    using find_existing_none [OF assms(2)] .
  show ?thesis
    using c fe by (simp add: add_app_catalog_def with_apps_def)
qed


lemma save_catalog_ok:
  "\<not> has_float catalog \<Longrightarrow> put_failure c = None \<Longrightarrow>
   save_catalog c catalog = (Inr (), after_put c catalog)"
  by (simp add: save_catalog_eq after_put_def)

lemma set_update_cases:
  "(a, b) \<in> set (AList.update k v kvs) \<Longrightarrow> (a, b) = (k, v) \<or> (a, b) \<in> set kvs"
  by (induction kvs) (auto split: if_splits)

lemma has_float_with_apps:
  "\<not> has_float catalog \<Longrightarrow> \<forall>x \<in> set xs. \<not> has_float x \<Longrightarrow> \<not> has_float (with_apps catalog xs)"
  by (cases catalog) (auto simp: with_apps_def dest!: set_update_cases)

lemma has_float_apps:
  "\<not> has_float catalog \<Longrightarrow> apps_of catalog = Some xs \<Longrightarrow> x \<in> set xs \<Longrightarrow> \<not> has_float x"
  by (cases catalog)
     (auto simp: apps_of_def field_def split: option.splits json.splits dest!: map_of_SomeD)

lemma has_float_field:
  "\<not> has_float x \<Longrightarrow> field x k = Some t \<Longrightarrow> \<not> has_float t"
  by (cases x) (auto simp: field_def dest!: map_of_SomeD)

lemma has_float_updated_entry:
  "\<not> has_float old \<Longrightarrow>
   \<not> has_float (updated_entry old app_id name icon description path featured now1 now2)"
  by (auto simp: updated_entry_def split: option.splits dest: has_float_field)

lemma has_float_new_entry:
  "\<not> has_float (JObj (new_entry app_id name icon description path featured now1))"
  by (simp add: new_entry_def)

lemma apps_of_field: "apps_of catalog = Some xs \<longleftrightarrow> field catalog ''apps'' = Some (JArr xs)"
  by (auto simp: apps_of_def split: option.splits json.splits)

lemma apps_of_with_apps: "apps_of catalog = Some xs \<Longrightarrow> apps_of (with_apps catalog ys) = Some ys"
  by (cases catalog)
     (auto simp: apps_of_def field_def with_apps_def update_conv' split: option.splits json.splits)

section \<open>Reading back what was written\<close>

lemma hex_val_hex_digit: "d < 16 \<Longrightarrow> hex_val (hex_digit d) = Some d"
  by (simp add: hex_val_def hex_digit_def)

lemma hex4_value:
  "(n div 4096 mod 16) * 4096 + (n div 256 mod 16) * 256 + (n div 16 mod 16) * 16 + n mod 16
     = n mod 65536" for n :: nat
proof -
  have d2: "n div 256 = n div 16 div 16" by (simp add: div_mult2_eq)
  have d3: "n div 4096 = n div 16 div 16 div 16" by (simp add: div_mult2_eq)
  have m: "n mod 65536 = n mod 16 + 16 * ((n div 16) mod 4096)"
    using mod_mult2_eq [of n 16 4096] by simp
  have m2: "(n div 16) mod 4096 = (n div 16) mod 16 + 16 * ((n div 16 div 16) mod 256)"
    using mod_mult2_eq [of "n div 16" 16 256] by simp
  have m3: "(n div 16 div 16) mod 256
              = (n div 16 div 16) mod 16 + 16 * ((n div 16 div 16 div 16) mod 16)"
    using mod_mult2_eq [of "n div 16 div 16" 16 16] by simp
  show ?thesis
    unfolding d2 d3 m m2 m3 by simp
qed

lemma decode_hex4: "n < 0x10000 \<Longrightarrow> decode_uXXXX (hex4 n @ r) = Some n"
  using hex4_value [of n]
  by (simp add: decode_uXXXX_def hex4_def hex_val_hex_digit)

lemma scanstring_plain:
  "c \<noteq> 0x22 \<Longrightarrow> c \<noteq> 0x5C \<Longrightarrow> \<not> c < 0x20 \<Longrightarrow> scanstring (c # t) = consume c (scanstring t)"
  by simp

lemma scanstring_quote: "scanstring (0x22 # t) = Some ([], t)"
  by simp

lemma scanstring_backslash:
  "backslash e = Some x \<Longrightarrow> e \<noteq> 0x75 \<Longrightarrow>
   scanstring (0x5C # e # t) = consume x (scanstring t)"
  by simp

lemma scanstring_u_single:
  "decode_uXXXX r = Some u \<Longrightarrow> \<not> (is_high u \<and> take 2 (drop 4 r) = [0x5C, 0x75]) \<Longrightarrow>
   scanstring (0x5C # 0x75 # r) = consume u (scanstring (drop 4 r))"
  by (auto simp: is_high_def)

lemma scanstring_u_notlow:
  "decode_uXXXX r = Some u \<Longrightarrow> decode_uXXXX (drop 6 r) = Some u2 \<Longrightarrow> \<not> is_low u2 \<Longrightarrow>
   scanstring (0x5C # 0x75 # r) = consume u (scanstring (drop 4 r))"
  by (auto simp: is_low_def)

lemma scanstring_u_pair:
  "decode_uXXXX r = Some u \<Longrightarrow> is_high u \<Longrightarrow> take 2 (drop 4 r) = [0x5C, 0x75] \<Longrightarrow>
   decode_uXXXX (drop 6 r) = Some u2 \<Longrightarrow> is_low u2 \<Longrightarrow>
   scanstring (0x5C # 0x75 # r)
     = consume (0x10000 + ((u - 0xD800) * 1024 + (u2 - 0xDC00))) (scanstring (drop 10 r))"
  by (simp add: is_low_def is_high_def)

declare scanstring.simps [simp del]

lemma escape_printable:
  "printable c \<Longrightarrow> scanstring (escape_char c @ t) = consume c (scanstring t)"
  unfolding printable_def escape_char_def
  by (auto simp: scanstring_plain scanstring_backslash backslash_def)

lemma escape_char_u:
  "\<not> printable c \<Longrightarrow> c < 0x10000 \<Longrightarrow> escape_char c = u_escape c"
  unfolding printable_def escape_char_def by auto

lemma escape_char_pair:
  "\<not> c < 0x10000 \<Longrightarrow>
   escape_char c = u_escape (0xD800 + (c - 0x10000) div 1024 mod 1024)
                   @ u_escape (0xDC00 + (c - 0x10000) mod 1024)"
  unfolding escape_char_def Let_def by auto

lemma length_hex4 [simp]: "length (hex4 n) = 4"
  by (simp add: hex4_def)

lemma escape_u_single:
  assumes "c < 0x10000" and "\<not> is_high c \<or> nolow t"
  shows "scanstring (u_escape c @ t) = consume c (scanstring t)"
proof (cases "is_high c \<and> take 2 t = [0x5C, 0x75]")
  case False
  have "scanstring (0x5C # 0x75 # hex4 c @ t) = consume c (scanstring (drop 4 (hex4 c @ t)))"
    using False by (intro scanstring_u_single) (auto simp: decode_hex4 assms(1))
  then show ?thesis by (simp add: u_escape_def)
next
  case True
  with assms(2) obtain u2 where u2: "decode_uXXXX (drop 2 t) = Some u2" "\<not> is_low u2"
    by (auto simp: nolow_def)
  have "scanstring (0x5C # 0x75 # hex4 c @ t) = consume c (scanstring (drop 4 (hex4 c @ t)))"
    using u2 by (intro scanstring_u_notlow [where ?u2.0 = u2]) (auto simp: decode_hex4 assms(1))
  then show ?thesis by (simp add: u_escape_def)
qed

lemma escape_u_pair:
  assumes "\<not> c < 0x10000" and "c < 0x110000"
  shows "scanstring (escape_char c @ t) = consume c (scanstring t)"
proof -
  define n where "n = c - 0x10000"
  define hi where "hi = 0xD800 + n div 1024 mod 1024"
  define lo where "lo = 0xDC00 + n mod 1024"
  have n: "n < 0x100000" using assms by (simp add: n_def)
  have nlt: "n div 1024 < 1024" using n by (simp add: div_less_iff_less_mult)
  have nd: "n div 1024 mod 1024 = n div 1024" using nlt by simp
  have hi: "hi < 0x10000" "is_high hi" using nlt by (simp_all add: hi_def is_high_def nd)
  have lo: "lo < 0x10000" "is_low lo" by (simp_all add: lo_def is_low_def)
  have e: "escape_char c = u_escape hi @ u_escape lo"
    using escape_char_pair [OF assms(1)] by (simp add: hi_def lo_def n_def)
  let ?r = "hex4 hi @ u_escape lo @ t"
  have "scanstring (0x5C # 0x75 # ?r)
     = consume (0x10000 + ((hi - 0xD800) * 1024 + (lo - 0xDC00))) (scanstring (drop 10 ?r))"
    by (rule scanstring_u_pair [where ?u2.0 = lo])
       (simp_all add: decode_hex4 hi lo u_escape_def)
  moreover have "0x10000 + ((hi - 0xD800) * 1024 + (lo - 0xDC00)) = c"
    using assms by (simp add: hi_def lo_def nd) (simp add: n_def)
  ultimately show ?thesis
    by (simp add: e u_escape_def)
qed

lemma escape_step:
  assumes "c < 0x110000" and "\<not> is_high c \<or> nolow t"
  shows "scanstring (escape_char c @ t) = consume c (scanstring t)"
proof (cases "printable c")
  case True
  then show ?thesis by (rule escape_printable)
next
  case False
  show ?thesis
  proof (cases "c < 0x10000")
    case True
    with False assms(2) show ?thesis
      by (simp add: escape_char_u escape_u_single)
  next
    case False
    with assms(1) show ?thesis by (simp add: escape_u_pair)
  qed
qed

lemma nolow_quote: "nolow (0x22 # rest)"
  by (simp add: nolow_def)

lemma nolow_escape:
  assumes "\<not> is_low d"
  shows "nolow (escape_char d @ t)"
proof (cases "printable d")
  case True
  then show ?thesis
    unfolding printable_def escape_char_def nolow_def by auto
next
  case False
  show ?thesis
  proof (cases "d < 0x10000")
    case True
    with False assms show ?thesis
      by (simp add: escape_char_u nolow_def u_escape_def decode_hex4)
  next
    case False
    define hi where "hi = 0xD800 + (d - 0x10000) div 1024 mod 1024"
    have "hi < 0xDC00" by (simp add: hi_def) 
    then have hi: "hi < 0x10000" "\<not> is_low hi" by (simp_all add: is_low_def)
    show ?thesis
      using hi escape_char_pair [OF False]
      by (simp add: nolow_def u_escape_def decode_hex4 hi_def)
  qed
qed

lemma wf_str_hd: "wf_str (c # cs) \<Longrightarrow> c < 0x110000"
  by (cases cs) simp_all

lemma scanstring_escaped:
  "wf_str s \<Longrightarrow> scanstring (concat (map escape_char s) @ 0x22 # rest) = Some (s, rest)"
proof (induction s rule: wf_str.induct)
  case 1
  show ?case by (simp add: scanstring_quote)
next
  case (2 c)
  then have "scanstring (escape_char c @ 0x22 # rest) = consume c (scanstring (0x22 # rest))"
    by (intro escape_step) (simp_all add: nolow_quote)
  then show ?case by (simp add: scanstring_quote consume_def)
next
  case (3 c d cs)
  let ?t = "escape_char d @ concat (map escape_char cs) @ 0x22 # rest"
  from 3 have c: "c < 0x110000" and nl: "\<not> is_high c \<or> \<not> is_low d" and w: "wf_str (d # cs)"
    by auto
  have "\<not> is_high c \<or> nolow ?t"
    using nl nolow_escape [of d] by blast
  then have "scanstring (escape_char c @ ?t) = consume c (scanstring ?t)"
    using c by (intro escape_step)
  moreover have "scanstring ?t = Some (d # cs, rest)"
    using 3 w by simp
  ultimately show ?case by (simp add: consume_def)
qed

lemma digits_all: "\<forall>d \<in> set (digits n). is_digit d"
proof (induction n rule: digits.induct)
  case (1 n)
  show ?case
  proof (cases "n < 10")
    case True
    then show ?thesis by (simp add: digits_small is_digit_def)
  next
    case False
    have "n mod 10 < 10" by simp
    then have "is_digit (48 + n mod 10)" unfolding is_digit_def by linarith
    with False 1 show ?thesis by (simp add: digits_large)
  qed
qed

lemma digits_val_append:
  "digits_val acc (ds @ [d]) = digits_val acc ds * 10 + (d - 0x30)"
  by (induction ds arbitrary: acc) simp_all

lemma digits_val_digits: "digits_val 0 (digits n) = n"
proof (induction n rule: digits.induct)
  case (1 n)
  show ?case
  proof (cases "n < 10")
    case True
    then show ?thesis by (simp add: digits_small)
  next
    case False
    with 1 show ?thesis by (simp add: digits_large digits_val_append)
  qed
qed

lemma digits_head:
  "\<exists>d ds. digits n = d # ds \<and> (if n = 0 then d = 0x30 \<and> ds = [] else 0x31 \<le> d \<and> d \<le> 0x39)"
proof (induction n rule: digits.induct)
  case (1 n)
  show ?case
  proof (cases "n < 10")
    case True
    then show ?thesis by (auto simp add: digits_small)
  next
    case False
    then have "n div 10 \<noteq> 0" by simp
    with False 1 show ?thesis by (auto simp add: digits_large)
  qed
qed

lemma delim_not_digit: "delim (c # r) \<Longrightarrow> \<not> is_digit c"
  by (auto simp: delim_def is_digit_def)

lemma takeWhile_digits:
  "\<forall>d \<in> set ds. is_digit d \<Longrightarrow> delim rest \<Longrightarrow>
   takeWhile is_digit (ds @ rest) = ds \<and> dropWhile is_digit (ds @ rest) = rest"
  by (cases rest) (auto simp: takeWhile_append2 dropWhile_append2 dropWhile_append3
      dest: delim_not_digit)

lemma match_integer_digits:
  assumes "delim rest"
  shows "match_integer (digits n @ rest) = Some (digits n, rest)"
proof -
  obtain d ds where d: "digits n = d # ds"
    and h: "if n = 0 then d = 0x30 \<and> ds = [] else 0x31 \<le> d \<and> d \<le> 0x39"
    using digits_head [of n] by blast
  have "\<forall>x \<in> set ds. is_digit x" using digits_all [of n] d by simp
  then have tw: "takeWhile is_digit (ds @ rest) = ds" "dropWhile is_digit (ds @ rest) = rest"
    using takeWhile_digits [OF _ assms] by blast+
  show ?thesis
  proof (cases "n = 0")
    case True
    with h d show ?thesis by (simp add: match_integer_def)
  next
    case False
    with h have "0x31 \<le> d" "d \<le> 0x39" by auto
    then show ?thesis using d tw by (simp add: match_integer_def)
  qed
qed

lemma match_frac_delim: "delim rest \<Longrightarrow> match_frac rest = None"
  by (auto simp: match_frac_def delim_def split: list.splits)

lemma match_exp_delim: "delim rest \<Longrightarrow> match_exp rest = None"
  by (auto simp: match_exp_def delim_def split: list.splits)

lemma digits_not_minus: "digits n = d # ds \<Longrightarrow> d \<noteq> 0x2D"
  using digits_all [of n] by (auto simp: is_digit_def)

lemma match_number_int_repr:
  assumes "delim rest"
  shows "match_number (int_repr i @ rest) = Some (JInt i, rest)"
proof (cases "i < 0")
  case True
  then show ?thesis
    by (simp add: match_number_def int_repr_def match_integer_digits [OF assms]
        match_frac_delim [OF assms] match_exp_delim [OF assms] digits_val_digits)
next
  case False
  obtain d ds where d: "digits (nat i) = d # ds"
    using digits_head [of "nat i"] by blast
  have m: "d \<noteq> 0x2D" using digits_not_minus [OF d] .
  have "match_integer (d # ds @ rest) = Some (d # ds, rest)"
    using match_integer_digits [OF assms, of "nat i"] d by simp
  moreover have "digits_val 0 (d # ds) = nat i"
    using digits_val_digits [of "nat i"] d by simp
  ultimately show ?thesis
    using False m d
    by (simp add: match_number_def int_repr_def
        match_frac_delim [OF assms] match_exp_delim [OF assms])
qed

lemma scan_once_string:
  "scan_once (Suc n) (0x22 # cs) = map_option (\<lambda>(k, r). (JStr k, r)) (scanstring cs)"
  by simp

lemma scan_once_empty_object:
  "skip_ws cs = 0x7D # r \<Longrightarrow> scan_once (Suc n) (0x7B # cs) = Some (JObj [], r)"
  by simp

lemma scan_once_object:
  "skip_ws cs = 0x22 # r \<Longrightarrow>
   scan_once (Suc n) (0x7B # cs) = map_option (\<lambda>(ps, r'). (JObj (dict ps), r')) (JSONObject n r)"
  by simp

lemma scan_once_empty_array:
  "skip_ws cs = 0x5D # r \<Longrightarrow> scan_once (Suc n) (0x5B # cs) = Some (JArr [], r)"
  by simp

lemma scan_once_array:
  "skip_ws cs = d # r \<Longrightarrow> d \<noteq> 0x5D \<Longrightarrow>
   scan_once (Suc n) (0x5B # cs) = map_option (\<lambda>(xs, r'). (JArr xs, r')) (JSONArray n (d # r))"
  by simp

lemma scan_once_null: "scan_once (Suc n) (str ''null'' @ rest) = Some (JNull, rest)"
  by (simp add: str_def literal_def)

lemma scan_once_true: "scan_once (Suc n) (str ''true'' @ rest) = Some (JBool True, rest)"
  by (simp add: str_def literal_def)

lemma scan_once_false: "scan_once (Suc n) (str ''false'' @ rest) = Some (JBool False, rest)"
  by (simp add: str_def literal_def)

lemma int_repr_head:
  "\<exists>c cs. int_repr i = c # cs \<and> (c = 0x2D \<or> is_digit c)"
proof -
  obtain d ds where "digits (nat i) = d # ds" "digits (nat (- i)) \<noteq> []"
    using digits_head [of "nat i"] digits_head [of "nat (- i)"] by auto
  moreover have "is_digit d" using digits_all [of "nat i"] calculation(1) by simp
  ultimately show ?thesis by (auto simp: int_repr_def)
qed

lemma scan_once_number:
  assumes "c = 0x2D \<or> is_digit c" and "match_number (c # cs) = Some res"
  shows "scan_once (Suc n) (c # cs) = Some res"
proof -
  have "c \<noteq> 0x22" "c \<noteq> 0x7B" "c \<noteq> 0x5B" "c \<noteq> 0x6E" "c \<noteq> 0x74" "c \<noteq> 0x66"
    using assms(1) by (auto simp: is_digit_def)
  then show ?thesis
    using assms(2) by simp
qed

lemma scan_once_int:
  assumes "delim rest"
  shows "scan_once (Suc n) (int_repr i @ rest) = Some (JInt i, rest)"
proof -
  obtain c cs where c: "int_repr i = c # cs" "c = 0x2D \<or> is_digit c"
    using int_repr_head by blast
  have "match_number (c # cs @ rest) = Some (JInt i, rest)"
    using match_number_int_repr [OF assms, of i] c(1) by simp
  then show ?thesis
    using scan_once_number [OF c(2), of "cs @ rest"] c(1) by simp
qed

lemma JSONArray_unfold:
  "JSONArray (Suc n) s =
     (case scan_once n s of
        None \<Rightarrow> None
      | Some (v, r) \<Rightarrow> map_option (\<lambda>(vs, r''). (v # vs, r'')) (array_rest n r))"
proof (cases "scan_once n s")
  case None
  then show ?thesis by simp
next
  case (Some p)
  obtain v r where p: "p = (v, r)" by (cases p)
  show ?thesis
  proof (cases "skip_ws r")
    case Nil
    with Some p show ?thesis by (simp add: array_rest_def)
  next
    case (Cons d r')
    with Some p show ?thesis by (simp add: array_rest_def)
  qed
qed

lemma JSONObject_unfold:
  assumes "scanstring s = Some (key, r)" and "skip_ws r = 0x3A # r1"
    and "scan_once n (skip_ws r1) = Some (v, r2)"
  shows "JSONObject (Suc n) s = map_option (\<lambda>(ps, r5). ((key, v) # ps, r5)) (object_rest n r2)"
proof (cases "skip_ws r2")
  case Nil
  with assms show ?thesis by (simp add: object_rest_def)
next
  case (Cons d r3)
  show ?thesis
  proof (cases "skip_ws r3")
    case Nil
    with Cons assms show ?thesis by (simp add: object_rest_def)
  next
    case c4: (Cons q r4)
    with Cons assms show ?thesis by (simp add: object_rest_def)
  qed
qed

declare scan_once.simps [simp del] JSONArray.simps [simp del] JSONObject.simps [simp del]

lemma skip_ws_newline_indent: "skip_ws (newline_indent k @ s) = skip_ws s"
  by (simp add: skip_ws_def newline_indent_def is_ws_def dropWhile_append)

lemma skip_ws_space: "skip_ws (0x20 # s) = skip_ws s"
  by (simp add: skip_ws_def is_ws_def)

lemma skip_ws_id: "\<not> is_ws c \<Longrightarrow> skip_ws (c # s) = c # s"
  by (simp add: skip_ws_def)

lemma iterencode_head:
  "\<exists>c cs. iterencode l v = c # cs \<and> \<not> is_ws c \<and> c \<noteq> 0x5D"
proof (cases v)
  case (JInt i)
  obtain c cs where "int_repr i = c # cs" "c = 0x2D \<or> is_digit c"
    using int_repr_head by blast
  with JInt show ?thesis by (auto simp: is_ws_def is_digit_def)
next
  case (JArr xs)
  then show ?thesis by (cases xs) (simp_all add: str_def is_ws_def)
next
  case (JObj kvs)
  then show ?thesis by (cases kvs) (auto simp add: str_def is_ws_def)
qed (simp_all add: str_def is_ws_def encode_basestring_ascii_def)

lemma skip_ws_iterencode: "skip_ws (iterencode l v @ s) = iterencode l v @ s"
  using iterencode_head [of l v] by (auto simp: skip_ws_id)

lemma length_iterencode: "0 < length (iterencode l v)"
  using iterencode_head [of l v] by auto

lemma length_newline_indent: "0 < length (newline_indent k)"
  by (simp add: newline_indent_def)

lemma delim_newline_indent: "delim (newline_indent k @ s)"
  by (simp add: delim_def newline_indent_def)

lemma delim_items: "delim (encode_items l xs @ newline_indent k @ s)"
  by (cases xs) (simp_all add: delim_newline_indent, simp add: delim_def)

lemma delim_pairs: "delim (encode_pairs l kvs @ newline_indent k @ s)"
  by (cases kvs) (auto simp add: delim_newline_indent, simp add: delim_def)

lemma array_rest_close: "array_rest n (newline_indent k @ 0x5D # rest) = Some ([], rest)"
  by (simp add: array_rest_def skip_ws_newline_indent skip_ws_id is_ws_def)

lemma array_rest_comma:
  "array_rest n (0x2C # newline_indent l @ iterencode l' v @ s) = JSONArray n (iterencode l' v @ s)"
  by (simp add: array_rest_def skip_ws_newline_indent skip_ws_id is_ws_def skip_ws_iterencode)

lemma object_rest_close: "object_rest n (newline_indent k @ 0x7D # rest) = Some ([], rest)"
  by (simp add: object_rest_def skip_ws_newline_indent skip_ws_id is_ws_def)

lemma object_rest_comma:
  "object_rest n (0x2C # newline_indent l @ 0x22 # r) = JSONObject n r"
  by (simp add: object_rest_def skip_ws_newline_indent skip_ws_id is_ws_def)

lemma JSONArray_item:
  assumes "scan_once m s = Some (x, tail)" and "array_rest m tail = Some (xs, rest)"
  shows "JSONArray (Suc m) s = Some (x # xs, rest)"
  using assms by (simp add: JSONArray_unfold)

lemma JSONObject_pair:
  assumes "wf_str k"
    and "scan_once m (iterencode l v @ tail) = Some (v, tail)"
    and "object_rest m tail = Some (kvs, rest)"
  shows "JSONObject (Suc m)
           (concat (map escape_char k) @ 0x22 # 0x3A # 0x20 # iterencode l v @ tail)
         = Some ((k, v) # kvs, rest)"
proof -
  let ?r = "0x3A # 0x20 # iterencode l v @ tail"
  have 1: "scanstring (concat (map escape_char k) @ 0x22 # ?r) = Some (k, ?r)"
    using assms(1) by (rule scanstring_escaped)
  have 2: "skip_ws ?r = 0x3A # (0x20 # iterencode l v @ tail)"
    by (simp add: skip_ws_id is_ws_def)
  have 3: "scan_once m (skip_ws (0x20 # iterencode l v @ tail)) = Some (v, tail)"
    using assms(2) by (simp add: skip_ws_space skip_ws_iterencode)
  show ?thesis
    using JSONObject_unfold [OF 1 2 3] assms(3) by simp
qed

lemma update_fresh: "k \<notin> fst ` set acc \<Longrightarrow> AList.update k v acc = acc @ [(k, v)]"
  by (induction acc) auto

lemma foldl_update_distinct:
  "distinct (map fst (acc @ ps)) \<Longrightarrow>
   foldl (\<lambda>d (k, v). AList.update k v d) acc ps = acc @ ps"
proof (induction ps arbitrary: acc)
  case Nil
  show ?case by simp
next
  case (Cons p ps)
  obtain k v where p: "p = (k, v)" by (cases p)
  from Cons.prems p have "k \<notin> fst ` set acc" by auto
  then have "AList.update k v acc = acc @ [(k, v)]" by (rule update_fresh)
  moreover have "distinct (map fst ((acc @ [(k, v)]) @ ps))" using Cons.prems p by simp
  ultimately show ?case using Cons.IH [of "acc @ [(k, v)]"] p by simp
qed

lemma dict_distinct: "distinct (map fst ps) \<Longrightarrow> dict ps = ps"
  using foldl_update_distinct [of "[]" ps] by (simp add: dict_def)

lemma scan_roundtrip:
  "wf_json v \<Longrightarrow> delim rest \<Longrightarrow> length (iterencode l v) \<le> n \<Longrightarrow>
     scan_once n (iterencode l v @ rest) = Some (v, rest)"
  "(\<forall>x \<in> set xs. wf_json x) \<Longrightarrow> length (encode_items l xs) \<le> n \<Longrightarrow>
     array_rest n (encode_items l xs @ newline_indent k @ 0x5D # rest) = Some (xs, rest)"
  "(\<forall>kv \<in> set kvs. wf_str (fst kv) \<and> wf_json (snd kv)) \<Longrightarrow>
     length (encode_pairs l kvs) \<le> n \<Longrightarrow>
     object_rest n (encode_pairs l kvs @ newline_indent k @ 0x7D # rest) = Some (kvs, rest)"
proof (induction l v and l xs and l kvs arbitrary: n rest and n rest k and n rest k
    rule: iterencode_encode_items_encode_pairs.induct)
  case (1 level)
  then obtain m where "n = Suc m" by (cases n) (simp_all add: str_def)
  then show ?case by (simp add: scan_once_null)
next
  case (2 level b)
  then obtain m where "n = Suc m" by (cases n) (simp_all add: str_def split: if_splits)
  then show ?case by (simp add: scan_once_true scan_once_false)
next
  case (3 level i)
  then obtain m where "n = Suc m"
    using length_iterencode [of level "JInt i"] by (cases n) simp_all
  with 3 show ?case by (simp add: scan_once_int)
next
  case (4 level)
  then show ?case by simp
next
  case (5 level s)
  then obtain m where "n = Suc m" by (cases n) (simp_all add: encode_basestring_ascii_def)
  with 5 show ?case
    by (simp add: encode_basestring_ascii_def scan_once_string scanstring_escaped)
next
  case (6 level)
  then obtain m where "n = Suc m" by (cases n) (simp_all add: str_def)
  then show ?case
    by (simp add: str_def scan_once_empty_array skip_ws_id is_ws_def)
next
  case (7 level x xs)
  let ?tail = "encode_items (Suc level) xs @ newline_indent level @ 0x5D # rest"
  from "7.prems" have wx: "wf_json x" and wxs: "\<forall>y \<in> set xs. wf_json y" by auto
  from "7.prems"(3) obtain m where n: "n = Suc (Suc m)"
    and lx: "length (iterencode (Suc level) x) \<le> m"
    and lxs: "length (encode_items (Suc level) xs) \<le> m"
    using length_newline_indent [of level] length_newline_indent [of "Suc level"]
    by (cases n; cases "n - 1") auto
  have a: "scan_once m (iterencode (Suc level) x @ ?tail) = Some (x, ?tail)"
    using wx lx by (intro "7.IH"(1)) (simp_all add: delim_items)
  have b: "array_rest m ?tail = Some (xs, rest)"
    using wxs lxs by (intro "7.IH"(2))
  have c: "JSONArray (Suc m) (iterencode (Suc level) x @ ?tail) = Some (x # xs, rest)"
    using a b by (rule JSONArray_item)
  obtain d r where d: "iterencode (Suc level) x = d # r" "\<not> is_ws d" "d \<noteq> 0x5D"
    using iterencode_head by blast
  have "skip_ws (newline_indent (Suc level) @ iterencode (Suc level) x @ ?tail)
          = d # (r @ ?tail)"
    using d by (simp add: skip_ws_newline_indent skip_ws_id)
  then have "scan_once (Suc (Suc m))
               (0x5B # newline_indent (Suc level) @ iterencode (Suc level) x @ ?tail)
             = map_option (\<lambda>(xs, r'). (JArr xs, r')) (JSONArray (Suc m) (d # (r @ ?tail)))"
    using d(3) by (rule scan_once_array)
  then show ?case using c d(1) n by simp
next
  case (8 level)
  then obtain m where "n = Suc m" by (cases n) (simp_all add: str_def)
  then show ?case
    by (simp add: str_def scan_once_empty_object skip_ws_id is_ws_def)
next
  case (9 level k' v kvs)
  let ?tail = "encode_pairs (Suc level) kvs @ newline_indent level @ 0x7D # rest"
  let ?r = "concat (map escape_char k') @ 0x22 # 0x3A # 0x20 # iterencode (Suc level) v @ ?tail"
  from "9.prems" have wk: "wf_str k'" and wv: "wf_json v"
    and wkvs: "\<forall>kv \<in> set kvs. wf_str (fst kv) \<and> wf_json (snd kv)"
    and dist: "distinct (map fst ((k', v) # kvs))" by auto
  from "9.prems"(3) obtain m where n: "n = Suc (Suc m)"
    and lv: "length (iterencode (Suc level) v) \<le> m"
    and lkvs: "length (encode_pairs (Suc level) kvs) \<le> m"
    using length_newline_indent [of level] length_newline_indent [of "Suc level"]
    by (cases n; cases "n - 1") (auto simp: encode_basestring_ascii_def)
  have a: "scan_once m (iterencode (Suc level) v @ ?tail) = Some (v, ?tail)"
    using wv lv by (intro "9.IH"(1)) (simp_all add: delim_pairs)
  have b: "object_rest m ?tail = Some (kvs, rest)"
    using wkvs lkvs by (intro "9.IH"(2))
  have c: "JSONObject (Suc m) ?r = Some ((k', v) # kvs, rest)"
    using wk a b by (rule JSONObject_pair)
  have "skip_ws (newline_indent (Suc level) @ 0x22 # ?r) = 0x22 # ?r"
    by (simp add: skip_ws_newline_indent skip_ws_id is_ws_def)
  then have "scan_once (Suc (Suc m)) (0x7B # newline_indent (Suc level) @ 0x22 # ?r)
     = map_option (\<lambda>(ps, r'). (JObj (dict ps), r')) (JSONObject (Suc m) ?r)"
    by (rule scan_once_object)
  then show ?case
    using c n dict_distinct [OF dist] by (simp add: encode_basestring_ascii_def)
next
  case (10 level)
  show ?case by (simp add: array_rest_close)
next
  case (11 level x xs)
  let ?tail = "encode_items level xs @ newline_indent k @ 0x5D # rest"
  from "11.prems" have wx: "wf_json x" and wxs: "\<forall>y \<in> set xs. wf_json y" by auto
  from "11.prems"(2) obtain m where n: "n = Suc m"
    and lx: "length (iterencode level x) \<le> m"
    and lxs: "length (encode_items level xs) \<le> m"
    by (cases n) auto
  have a: "scan_once m (iterencode level x @ ?tail) = Some (x, ?tail)"
    using wx lx by (intro "11.IH"(1)) (simp_all add: delim_items)
  have b: "array_rest m ?tail = Some (xs, rest)"
    using wxs lxs by (intro "11.IH"(2))
  have "JSONArray (Suc m) (iterencode level x @ ?tail) = Some (x # xs, rest)"
    using a b by (rule JSONArray_item)
  then show ?case
    using n array_rest_comma [of "Suc m" level level x ?tail] by simp
next
  case (12 level)
  show ?case by (simp add: object_rest_close)
next
  case (13 level k' v kvs)
  let ?tail = "encode_pairs level kvs @ newline_indent k @ 0x7D # rest"
  let ?r = "concat (map escape_char k') @ 0x22 # 0x3A # 0x20 # iterencode level v @ ?tail"
  from "13.prems" have wk: "wf_str k'" and wv: "wf_json v"
    and wkvs: "\<forall>kv \<in> set kvs. wf_str (fst kv) \<and> wf_json (snd kv)" by auto
  from "13.prems"(2) obtain m where n: "n = Suc m"
    and lv: "length (iterencode level v) \<le> m"
    and lkvs: "length (encode_pairs level kvs) \<le> m"
    by (cases n) (auto simp: encode_basestring_ascii_def)
  have a: "scan_once m (iterencode level v @ ?tail) = Some (v, ?tail)"
    using wv lv by (intro "13.IH"(1)) (simp_all add: delim_pairs)
  have b: "object_rest m ?tail = Some (kvs, rest)"
    using wkvs lkvs by (intro "13.IH"(2))
  have "JSONObject (Suc m) ?r = Some ((k', v) # kvs, rest)"
    using wk a b by (rule JSONObject_pair)
  then show ?case
    using n object_rest_comma [of "Suc m" level ?r]
    by (simp add: encode_basestring_ascii_def)
qed

lemma json_loads_dumps: "wf_json v \<Longrightarrow> json_loads (json_dumps v) = Some v"
proof -
  assume w: "wf_json v"
  obtain c cs where h: "iterencode 0 v = c # cs" "\<not> is_ws c"
    using iterencode_head by blast
  have "ascii (iterencode 0 v)" by (rule ascii_iterencode)
  with h have c: "c \<noteq> 0xFEFF" by auto
  have "scan_once (Suc (length (iterencode 0 v))) (iterencode 0 v @ []) = Some (v, [])"
    using w by (intro scan_roundtrip(1)) (simp_all add: delim_def)
  then show ?thesis
    using h c skip_ws_iterencode [of 0 v "[]"]
    by (simp add: json_loads_def json_dumps_def skip_ws_def)
qed

lemma load_after_put:
  "wf_json catalog \<Longrightarrow> get_failure c = None \<Longrightarrow> load_catalog (after_put c catalog) = catalog"
  by (simp add: load_catalog_def get_object_def after_put_def utf8_decode_dumps json_loads_dumps)

subsection \<open>Saving what was loaded\<close>

lemma wf_str_below: "\<forall>c \<in> set s. c < 0xD800 \<Longrightarrow> wf_str s"
  by (induction s rule: wf_str.induct) (auto simp: is_high_def)

lemma wf_str_str [simp]: "wf_str (str s)"
proof (rule wf_str_below, rule ballI)
  fix c assume "c \<in> set (str s)"
  then obtain x :: char where "c = of_char x" by (auto simp: str_def)
  moreover have "(of_char x :: nat) < 256" by (rule nat_of_char_less_256)
  ultimately show "c < 0xD800" by linarith
qed

lemma wf_new_entry:
  "wf_str app_id \<Longrightarrow> wf_str name \<Longrightarrow> wf_str icon \<Longrightarrow> wf_str description \<Longrightarrow> wf_str path
   \<Longrightarrow> wf_str now \<Longrightarrow> wf_json (JObj (new_entry app_id name icon description path featured now))"
  by (simp add: new_entry_def)

lemma wf_weather: "wf_json weather"
  unfolding weather_def by (rule wf_new_entry) (simp_all add: is_high_def)

lemma wf_catalog_one: "wf_json catalog_one"
  by (simp add: catalog_one_def wf_weather)

lemma load_store_one: "load_catalog store_one = catalog_one"
  unfolding store_one_def by (rule load_after_put) (simp_all add: wf_catalog_one store_missing_def)

lemma wf_json_no_float: "wf_json v \<Longrightarrow> \<not> has_float v"
  by (induction v rule: has_float.induct) auto

text \<open>
  C9. Saving what was loaded changes nothing that a reader can see: for a store whose
  document is well formed (no float, no key twice, proper strings) and a client whose
  calls succeed, \<open>save_catalog\<close> succeeds, the bytes it writes parse to the catalog that
  \<open>load_catalog\<close> returned, and loading again returns the same catalog, all fields and
  time stamps as before.
\<close>

theorem save_load_roundtrip:
  assumes "wf_json (load_catalog c)" and "get_failure c = None" and "put_failure c = None"
  shows "fst (save_catalog c (load_catalog c)) = Inr ()
    \<and> json_loads (put_data (last (put_calls (snd (save_catalog c (load_catalog c))))))
        = Some (load_catalog c)
    \<and> load_catalog (snd (save_catalog c (load_catalog c))) = load_catalog c"
proof -
  have nf: "\<not> has_float (load_catalog c)" using assms(1) by (rule wf_json_no_float)
  show ?thesis
    using assms
    by (simp add: save_catalog_ok [OF nf assms(3)] load_after_put json_loads_dumps
        after_put_def json_put_def)
       (simp add: load_catalog_def get_object_def utf8_decode_dumps json_loads_dumps)
qed

lemma store_one_ok: "get_failure store_one = None" "put_failure store_one = None"
  by (simp_all add: store_one_def after_put_def store_missing_def)

theorem save_load_roundtrip_witness:
  "wf_json (load_catalog store_one) \<and> get_failure store_one = None
   \<and> put_failure store_one = None
   \<and> fst (save_catalog store_one (load_catalog store_one)) = Inr ()
   \<and> json_loads (put_data (last (put_calls
          (snd (save_catalog store_one (load_catalog store_one))))))
        = Some catalog_one
   \<and> load_catalog (snd (save_catalog store_one (load_catalog store_one))) = catalog_one"
proof -
  have h: "wf_json (load_catalog store_one)"
    by (simp add: load_store_one wf_catalog_one)
  show ?thesis
    using h store_one_ok save_load_roundtrip [OF h store_one_ok]
    by (simp add: load_store_one)
qed

subsection \<open>The saved catalog after \<open>add_app\<close>\<close>

lemma add_app_saved:
  assumes "add_app_catalog now1 now2 (load_catalog c) app_id name icon description path featured
             = Inr (catalog, action)"
    and "\<not> has_float catalog" and "put_failure c = None"
  shows "add_app now1 now2 c app_id name icon description path featured
           = (Inr True, [message action name app_id], after_put c catalog)"
  using assms by (simp add: add_app_def save_catalog_ok message_def)

lemma field_updated_entry:
  "field (updated_entry old app_id name icon description path featured now1 now2) ''created_at''
     = Some (case field old ''created_at'' of Some t \<Rightarrow> t | None \<Rightarrow> JStr now1)"
  "field (updated_entry old app_id name icon description path featured now1 now2) ''updated_at''
     = Some (JStr now2)"
  by (simp_all add: updated_entry_def field_def)

lemma field_new_entry:
  "field (JObj (new_entry app_id name icon description path featured now1)) ''created_at''
     = Some (JStr now1)"
  "field (JObj (new_entry app_id name icon description path featured now1)) ''updated_at''
     = None"
  by (simp_all add: new_entry_def field_def)

text \<open>
  C1. On a catalog whose entries are objects with a string \<^verbatim>\<open>id\<close>, with a client whose
  write succeeds: when the first entry with the given id stands at position \<open>i\<close>,
  \<open>add_app\<close> saves the catalog with that entry replaced, at position \<open>i\<close>, by the new
  fields, the old \<^verbatim>\<open>created_at\<close> (the time of the call when the old entry has none) and
  \<^verbatim>\<open>updated_at\<close> set to the time of the call; when no entry has the id, it saves the
  catalog with a new entry at the end, whose \<^verbatim>\<open>created_at\<close> is the time of the call and
  which has no \<^verbatim>\<open>updated_at\<close>.
\<close>

theorem add_app_upsert:
  assumes "apps_of (load_catalog c) = Some xs"
    and "\<forall>x \<in> set xs. is_entry x"
    and "\<not> has_float (load_catalog c)"
    and "put_failure c = None"
  shows "(\<forall>i < length xs. has_id app_id (xs ! i) \<and> (\<forall>j < i. \<not> has_id app_id (xs ! j)) \<longrightarrow>
           (let e = updated_entry (xs ! i) app_id name icon description path featured now1 now2 in
            add_app now1 now2 c app_id name icon description path featured
              = (Inr True, [message ''Updated'' name app_id],
                 after_put c (with_apps (load_catalog c) (xs[i := e])))
            \<and> apps_of (with_apps (load_catalog c) (xs[i := e])) = Some (xs[i := e])
            \<and> field e ''created_at''
                = Some (case field (xs ! i) ''created_at'' of Some t \<Rightarrow> t | None \<Rightarrow> JStr now1)
            \<and> field e ''updated_at'' = Some (JStr now2)))
       \<and> ((\<forall>x \<in> set xs. \<not> has_id app_id x) \<longrightarrow>
           (let e = JObj (new_entry app_id name icon description path featured now1) in
            add_app now1 now2 c app_id name icon description path featured
              = (Inr True, [message ''Added'' name app_id],
                 after_put c (with_apps (load_catalog c) (xs @ [e])))
            \<and> apps_of (with_apps (load_catalog c) (xs @ [e])) = Some (xs @ [e])
            \<and> field e ''created_at'' = Some (JStr now1)
            \<and> field e ''updated_at'' = None))"
proof (intro conjI allI impI)
  fix i
  assume i: "i < length xs"
    and h: "has_id app_id (xs ! i) \<and> (\<forall>j < i. \<not> has_id app_id (xs ! j))"
  let ?e = "updated_entry (xs ! i) app_id name icon description path featured now1 now2"
  let ?cat = "with_apps (load_catalog c) (xs[i := ?e])"
  have f: "field (load_catalog c) ''apps'' = Some (JArr xs)"
    using assms(1) by (simp add: apps_of_field)
  have before: "\<forall>j < i. is_entry (xs ! j) \<and> \<not> has_id app_id (xs ! j)"
    using h i assms(2) by auto
  have r: "add_app_catalog now1 now2 (load_catalog c) app_id name icon description path featured
             = Inr (?cat, ''Updated'')"
    using f i h before by (intro add_app_catalog_update) auto
  have "\<not> has_float (xs ! i)"
    using has_float_apps [OF assms(3) assms(1)] i by simp
  then have "\<not> has_float ?e" by (rule has_float_updated_entry)
  then have nf: "\<not> has_float ?cat"
    using has_float_apps [OF assms(3) assms(1)]
    by (intro has_float_with_apps [OF assms(3)]) (auto dest: set_update_subset_insert [THEN subsetD])
  show "let e = ?e in
        add_app now1 now2 c app_id name icon description path featured
          = (Inr True, [message ''Updated'' name app_id],
             after_put c (with_apps (load_catalog c) (xs[i := e])))
        \<and> apps_of (with_apps (load_catalog c) (xs[i := e])) = Some (xs[i := e])
        \<and> field e ''created_at''
            = Some (case field (xs ! i) ''created_at'' of Some t \<Rightarrow> t | None \<Rightarrow> JStr now1)
        \<and> field e ''updated_at'' = Some (JStr now2)"
    using add_app_saved [OF r nf assms(4)] apps_of_with_apps [OF assms(1)]
    by (simp add: Let_def field_updated_entry)
next
  assume h: "\<forall>x \<in> set xs. \<not> has_id app_id x"
  let ?e = "JObj (new_entry app_id name icon description path featured now1)"
  let ?cat = "with_apps (load_catalog c) (xs @ [?e])"
  have f: "field (load_catalog c) ''apps'' = Some (JArr xs)"
    using assms(1) by (simp add: apps_of_field)
  have r: "add_app_catalog now1 now2 (load_catalog c) app_id name icon description path featured
             = Inr (?cat, ''Added'')"
    using f h assms(2) by (intro add_app_catalog_append) auto
  have nf: "\<not> has_float ?cat"
    using has_float_apps [OF assms(3) assms(1)] has_float_new_entry
    by (intro has_float_with_apps [OF assms(3)]) auto
  show "let e = ?e in
        add_app now1 now2 c app_id name icon description path featured
          = (Inr True, [message ''Added'' name app_id],
             after_put c (with_apps (load_catalog c) (xs @ [e])))
        \<and> apps_of (with_apps (load_catalog c) (xs @ [e])) = Some (xs @ [e])
        \<and> field e ''created_at'' = Some (JStr now1)
        \<and> field e ''updated_at'' = None"
    using add_app_saved [OF r nf assms(4)] apps_of_with_apps [OF assms(1)]
    by (simp add: Let_def field_new_entry)
qed


lemma store_one_apps: "apps_of (load_catalog store_one) = Some [weather]"
  by (simp add: load_store_one catalog_one_def apps_of_def field_def)

lemma weather_entry: "\<forall>x \<in> set [weather]. is_entry x"
  by (simp add: is_entry_def weather_def new_entry_def)

lemma store_one_no_float: "\<not> has_float (load_catalog store_one)"
  by (simp add: load_store_one wf_json_no_float wf_catalog_one)

lemma weather_has_id: "has_id (str ''weather'') weather" "\<not> has_id (str ''clock'') weather"
  by (simp_all add: has_id_def weather_def new_entry_def)

lemma weather_created:
  "field weather ''created_at'' = Some (JStr (str ''2026-01-01T00:00:00+00:00''))"
  by (simp add: weather_def new_entry_def field_def)

theorem add_app_upsert_witness:
  "apps_of (load_catalog store_one) = Some [weather]
   \<and> is_entry weather
   \<and> \<not> has_float (load_catalog store_one)
   \<and> put_failure store_one = None
   \<and> has_id (str ''weather'') weather
   \<and> add_app (str ''2026-02-02T00:00:00+00:00'') (str ''2026-02-02T00:00:01+00:00'') store_one
        (str ''weather'') (str ''Weather'') (str ''W'') (str ''Forecast'') (str ''/w.html'') True
      = (Inr True, [message ''Updated'' (str ''Weather'') (str ''weather'')],
         after_put store_one (with_apps (load_catalog store_one)
           [updated_entry weather (str ''weather'') (str ''Weather'') (str ''W'')
              (str ''Forecast'') (str ''/w.html'') True (str ''2026-02-02T00:00:00+00:00'')
              (str ''2026-02-02T00:00:01+00:00'')]))
   \<and> field (updated_entry weather (str ''weather'') (str ''Weather'') (str ''W'')
              (str ''Forecast'') (str ''/w.html'') True (str ''2026-02-02T00:00:00+00:00'')
              (str ''2026-02-02T00:00:01+00:00'')) ''created_at''
       = Some (JStr (str ''2026-01-01T00:00:00+00:00''))
   \<and> \<not> has_id (str ''clock'') weather
   \<and> add_app (str ''2026-02-02T00:00:00+00:00'') (str ''2026-02-02T00:00:01+00:00'') store_one
        (str ''clock'') (str ''Clock'') (str ''C'') (str ''Time'') (str ''/c.html'') False
      = (Inr True, [message ''Added'' (str ''Clock'') (str ''clock'')],
         after_put store_one (with_apps (load_catalog store_one)
           [weather, JObj (new_entry (str ''clock'') (str ''Clock'') (str ''C'') (str ''Time'')
              (str ''/c.html'') False (str ''2026-02-02T00:00:00+00:00''))]))"
proof -
  note t = add_app_upsert [OF store_one_apps weather_entry store_one_no_float store_one_ok(2)]
  have u: "0 < length [weather]
    \<and> has_id (str ''weather'') ([weather] ! 0) \<and> (\<forall>j < 0. \<not> has_id (str ''weather'') ([weather] ! j))"
    by (simp add: weather_has_id)
  have n: "\<forall>x \<in> set [weather]. \<not> has_id (str ''clock'') x"
    by (simp add: weather_has_id)
  show ?thesis
    using store_one_apps weather_entry store_one_no_float store_one_ok(2) weather_has_id
      t [where app_id = "str ''weather''" and name = "str ''Weather''" and icon = "str ''W''"
           and description = "str ''Forecast''" and path = "str ''/w.html''" and featured = True
           and ?now1.0 = "str ''2026-02-02T00:00:00+00:00''"
           and ?now2.0 = "str ''2026-02-02T00:00:01+00:00''",
         THEN conjunct1, rule_format, of 0]
      t [where app_id = "str ''clock''" and name = "str ''Clock''" and icon = "str ''C''"
           and description = "str ''Time''" and path = "str ''/c.html''" and featured = False
           and ?now1.0 = "str ''2026-02-02T00:00:00+00:00''"
           and ?now2.0 = "str ''2026-02-02T00:00:01+00:00''",
         THEN conjunct2, rule_format]
      u n
    by (simp add: Let_def weather_created)
qed

subsection \<open>What \<open>add_app\<close> returns and prints\<close>

lemma bind_Inr_iff: "bind m f = Inr y \<longleftrightarrow> (\<exists>x. m = Inr x \<and> f x = Inr y)"
  by (cases m) simp_all

lemma find_existing_Some_D:
  "find_existing xs a k = Inr (Some i) \<Longrightarrow> \<exists>x \<in> set xs. has_id a x"
  by (induction xs arbitrary: k) (auto simp: bind_Inr_iff has_id_def split: if_splits)

lemma find_existing_None_D:
  "find_existing xs a k = Inr None \<Longrightarrow> \<forall>x \<in> set xs. \<not> has_id a x"
  by (induction xs arbitrary: k) (auto simp: bind_Inr_iff has_id_def split: if_splits)

lemma setindex_Inr_D: "setindex a i v = Inr a' \<Longrightarrow> \<exists>xs. a = JArr xs"
  by (cases a) (auto split: if_splits)

lemma list_append_Inr_D: "list_append a v = Inr a' \<Longrightarrow> \<exists>xs. a = JArr xs"
  by (cases a) auto

lemma getitem_apps_D: "getitem catalog (str ''apps'') = Inr (JArr xs) \<Longrightarrow> apps_of catalog = Some xs"
  by (cases catalog) (auto simp: apps_of_def field_def split: option.splits)

lemma add_app_catalog_action:
  assumes "add_app_catalog now1 now2 catalog app_id name icon description path featured
             = Inr (catalog', action)"
  shows "\<exists>xs. apps_of catalog = Some xs
    \<and> action = (if \<exists>x \<in> set xs. has_id app_id x then ''Updated'' else ''Added'')"
proof -
  from assms obtain apps items r where
    a: "getitem catalog (str ''apps'') = Inr apps" and it: "iter apps = Inr items"
    and fe: "find_existing items app_id 0 = Inr r"
    unfolding add_app_catalog_def bind_Inr_iff by blast
  show ?thesis
  proof (cases r)
    case None
    with assms a it fe obtain apps' where "list_append apps
        (JObj (new_entry app_id name icon description path featured now1)) = Inr apps'"
      and act: "action = ''Added''"
      unfolding add_app_catalog_def by (auto simp: bind_Inr_iff Let_def)
    then obtain xs where xs: "apps = JArr xs" using list_append_Inr_D by blast
    with it have "items = xs" by simp
    with fe None have "\<forall>x \<in> set xs. \<not> has_id app_id x" using find_existing_None_D by blast
    with a xs act show ?thesis by (auto dest: getitem_apps_D)
  next
    case (Some idx)
    with assms a it fe obtain v apps' where "setindex apps idx v = Inr apps'"
      and act: "action = ''Updated''"
      unfolding add_app_catalog_def by (auto simp: bind_Inr_iff Let_def)
    then obtain xs where xs: "apps = JArr xs" using setindex_Inr_D by blast
    with it have "items = xs" by simp
    with fe Some have "\<exists>x \<in> set xs. has_id app_id x" using find_existing_Some_D by blast
    with a xs act show ?thesis by (auto dest: getitem_apps_D)
  qed
qed

lemma add_app_cases:
  "add_app now1 now2 c app_id name icon description path featured = (Inr r, out, c') \<Longrightarrow>
   r = True \<and> (\<exists>catalog action.
     add_app_catalog now1 now2 (load_catalog c) app_id name icon description path featured
       = Inr (catalog, action)
     \<and> out = [message action name app_id])"
  by (auto simp: add_app_def message_def split: sum.splits prod.splits)


lemma add_app_insert_run:
  assumes "apps_of (load_catalog c) = Some xs"
    and "\<forall>x \<in> set xs. is_entry x \<and> \<not> has_id app_id x"
    and "\<not> has_float (load_catalog c)" and "put_failure c = None"
  shows "add_app now1 now2 c app_id name icon description path featured
     = (Inr True, [message ''Added'' name app_id],
        after_put c (with_apps (load_catalog c)
          (xs @ [JObj (new_entry app_id name icon description path featured now1)])))"
proof -
  let ?e = "JObj (new_entry app_id name icon description path featured now1)"
  have f: "field (load_catalog c) ''apps'' = Some (JArr xs)"
    using assms(1) by (simp add: apps_of_field)
  have r: "add_app_catalog now1 now2 (load_catalog c) app_id name icon description path featured
             = Inr (with_apps (load_catalog c) (xs @ [?e]), ''Added'')"
    using f assms(2) by (rule add_app_catalog_append)
  have nf: "\<not> has_float (with_apps (load_catalog c) (xs @ [?e]))"
    using has_float_apps [OF assms(3) assms(1)] has_float_new_entry
    by (intro has_float_with_apps [OF assms(3)]) auto
  show ?thesis by (rule add_app_saved [OF r nf assms(4)])
qed

lemma add_app_update_run:
  assumes "apps_of (load_catalog c) = Some xs"
    and "i < length xs" and "has_id app_id (xs ! i)"
    and "\<forall>j < i. is_entry (xs ! j) \<and> \<not> has_id app_id (xs ! j)"
    and "\<not> has_float (load_catalog c)" and "put_failure c = None"
  shows "add_app now1 now2 c app_id name icon description path featured
     = (Inr True, [message ''Updated'' name app_id],
        after_put c (with_apps (load_catalog c)
          (xs[i := updated_entry (xs ! i) app_id name icon description path featured
                     now1 now2])))"
proof -
  let ?e = "updated_entry (xs ! i) app_id name icon description path featured now1 now2"
  have f: "field (load_catalog c) ''apps'' = Some (JArr xs)"
    using assms(1) by (simp add: apps_of_field)
  have r: "add_app_catalog now1 now2 (load_catalog c) app_id name icon description path featured
             = Inr (with_apps (load_catalog c) (xs[i := ?e]), ''Updated'')"
    using f assms(2,3,4) by (rule add_app_catalog_update)
  have "\<not> has_float (xs ! i)"
    using has_float_apps [OF assms(5) assms(1)] assms(2) by simp
  then have "\<not> has_float ?e" by (rule has_float_updated_entry)
  then have nf: "\<not> has_float (with_apps (load_catalog c) (xs[i := ?e]))"
    using has_float_apps [OF assms(5) assms(1)]
    by (intro has_float_with_apps [OF assms(5)])
       (auto dest: set_update_subset_insert [THEN subsetD])
  show ?thesis by (rule add_app_saved [OF r nf assms(6)])
qed

lemma load_store_missing: "load_catalog store_missing = empty_catalog"
  by (simp add: load_catalog_def get_object_def store_missing_def)

lemma store_missing_apps: "apps_of (load_catalog store_missing) = Some []"
  by (simp add: load_store_missing empty_catalog_def apps_of_def field_def)

lemma store_missing_no_float: "\<not> has_float (load_catalog store_missing)"
  by (simp add: load_store_missing empty_catalog_def)

lemma add_weather_missing:
  "add_app now1 now2 store_missing (str ''weather'') name icon description path featured
     = (Inr True, [message ''Added'' name (str ''weather'')],
        after_put store_missing (with_apps (load_catalog store_missing)
          [JObj (new_entry (str ''weather'') name icon description path featured now1)]))"
  using add_app_insert_run [OF store_missing_apps _ store_missing_no_float, of "str ''weather''"]
  by (simp add: store_missing_def)

lemma add_weather_one:
  "add_app now1 now2 store_one (str ''weather'') name icon description path featured
     = (Inr True, [message ''Updated'' name (str ''weather'')],
        after_put store_one (with_apps (load_catalog store_one)
          [updated_entry weather (str ''weather'') name icon description path featured
             now1 now2]))"
  using add_app_update_run [OF store_one_apps _ _ _ store_one_no_float store_one_ok(2),
      of 0 "str ''weather''"]
  by (simp add: weather_has_id)


lemma weather_messages:
  "message ''Added'' (str ''Weather'') (str ''weather'') = str ''Added app: Weather (weather)''"
  "message ''Updated'' (str ''Weather'') (str ''weather'')
     = str ''Updated app: Weather (weather)''"
  "str ''Added app: Weather (weather)'' \<noteq> str ''Added Weather (weather)''"
  by (simp_all add: message_def str_def)

text \<open>
  C7 (as amended). Whenever \<open>add_app\<close> returns, it returns \<^verbatim>\<open>True\<close>, after an insert and
  after an update alike: neither the entry nor the kind of the change is returned. The
  kind of the change shows in the printed line only.
\<close>

theorem add_app_returns_True:
  "(case fst (add_app now1 now2 c app_id name icon description path featured) of
      Inl e \<Rightarrow> True
    | Inr r \<Rightarrow> r)"
  by (simp add: add_app_def split: sum.splits prod.splits)

text \<open>
  The claim as stated fails: an insert into the empty store and an update of the stored
  entry return the same value, \<^verbatim>\<open>True\<close>, while the printed lines differ.
\<close>

theorem add_app_returns_entry_counterexample:
  "fst (add_app (str ''2026-02-02T00:00:00+00:00'') (str ''2026-02-02T00:00:01+00:00'')
          store_missing (str ''weather'') (str ''Weather'') (str ''W'') (str ''Forecast'')
          (str ''/w.html'') False) = Inr True
   \<and> fst (add_app (str ''2026-02-02T00:00:00+00:00'') (str ''2026-02-02T00:00:01+00:00'')
          store_one (str ''weather'') (str ''Weather'') (str ''W'') (str ''Forecast'')
          (str ''/w.html'') False) = Inr True
   \<and> fst (snd (add_app (str ''2026-02-02T00:00:00+00:00'') (str ''2026-02-02T00:00:01+00:00'')
          store_missing (str ''weather'') (str ''Weather'') (str ''W'') (str ''Forecast'')
          (str ''/w.html'') False)) = [str ''Added app: Weather (weather)'']
   \<and> fst (snd (add_app (str ''2026-02-02T00:00:00+00:00'') (str ''2026-02-02T00:00:01+00:00'')
          store_one (str ''weather'') (str ''Weather'') (str ''W'') (str ''Forecast'')
          (str ''/w.html'') False)) = [str ''Updated app: Weather (weather)'']"
  by (simp add: add_weather_missing add_weather_one weather_messages)

text \<open>
  C8 (as amended). When the \<^verbatim>\<open>add\<close> subcommand completes, it has printed exactly one line,
  \<^verbatim>\<open>Added app: <name> (<id>)\<close> when no entry of the loaded catalog had the id and
  \<^verbatim>\<open>Updated app: <name> (<id>)\<close> when one had it.
\<close>

theorem add_prints_action:
  assumes "main now1 now2 c (Add app_id name icon description path featured) = (Inr (), out, c')"
  shows "\<exists>xs. apps_of (load_catalog c) = Some xs
    \<and> out = [(if \<exists>x \<in> set xs. has_id app_id x then str ''Updated'' else str ''Added'')
              @ str '' app: '' @ name @ str '' ('' @ app_id @ str '')'']"
proof -
  from assms obtain r where
    "add_app now1 now2 c app_id name icon description path featured = (Inr r, out, c')"
    by (auto split: prod.splits sum.splits simp: map_sum_def)
  then obtain catalog action where
    a: "add_app_catalog now1 now2 (load_catalog c) app_id name icon description path featured
          = Inr (catalog, action)"
    and o: "out = [message action name app_id]"
    using add_app_cases by blast
  from add_app_catalog_action [OF a] obtain xs where
    xs: "apps_of (load_catalog c) = Some xs"
    and act: "action = (if \<exists>x \<in> set xs. has_id app_id x then ''Updated'' else ''Added'')"
    by blast
  show ?thesis
    by (rule exI [of _ xs]) (simp add: xs o act message_def)
qed

theorem add_prints_action_witness:
  "main (str ''2026-02-02T00:00:00+00:00'') (str ''2026-02-02T00:00:01+00:00'') store_one
     (Add (str ''weather'') (str ''Weather'') (str ''W'') (str ''Forecast'') (str ''/w.html'')
        False)
   = (Inr (), [str ''Updated app: Weather (weather)''],
      after_put store_one (with_apps (load_catalog store_one)
        [updated_entry weather (str ''weather'') (str ''Weather'') (str ''W'')
           (str ''Forecast'') (str ''/w.html'') False (str ''2026-02-02T00:00:00+00:00'')
           (str ''2026-02-02T00:00:01+00:00'')]))
   \<and> (\<exists>xs. apps_of (load_catalog store_one) = Some xs
        \<and> [str ''Updated app: Weather (weather)'']
            = [(if \<exists>x \<in> set xs. has_id (str ''weather'') x then str ''Updated''
                else str ''Added'')
               @ str '' app: '' @ str ''Weather'' @ str '' ('' @ str ''weather'' @ str '')''])"
proof -
  have h: "main (str ''2026-02-02T00:00:00+00:00'') (str ''2026-02-02T00:00:01+00:00'')
     store_one
     (Add (str ''weather'') (str ''Weather'') (str ''W'') (str ''Forecast'') (str ''/w.html'')
        False)
   = (Inr (), [str ''Updated app: Weather (weather)''],
      after_put store_one (with_apps (load_catalog store_one)
        [updated_entry weather (str ''weather'') (str ''Weather'') (str ''W'')
           (str ''Forecast'') (str ''/w.html'') False (str ''2026-02-02T00:00:00+00:00'')
           (str ''2026-02-02T00:00:01+00:00'')]))"
    by (simp add: add_weather_one weather_messages)
  from add_prints_action [OF h] h show ?thesis by blast
qed

text \<open>
  The claim as stated fails: the line printed after an insert is
  \<^verbatim>\<open>Added app: Weather (weather)\<close>, not \<^verbatim>\<open>Added Weather (weather)\<close>.
\<close>

theorem add_prints_counterexample:
  "fst (snd (main (str ''2026-02-02T00:00:00+00:00'') (str ''2026-02-02T00:00:01+00:00'')
        store_missing
        (Add (str ''weather'') (str ''Weather'') (str ''W'') (str ''Forecast'') (str ''/w.html'')
           False)))
     = [str ''Added app: Weather (weather)'']
   \<and> fst (snd (main (str ''2026-02-02T00:00:00+00:00'') (str ''2026-02-02T00:00:01+00:00'')
        store_missing
        (Add (str ''weather'') (str ''Weather'') (str ''W'') (str ''Forecast'') (str ''/w.html'')
           False)))
     \<noteq> [str ''Added Weather (weather)'']"
  by (simp add: add_weather_missing weather_messages)

subsection \<open>A document of the wrong shape\<close>







subsection \<open>Removing\<close>

lemma has_id_field: "has_id a x \<longleftrightarrow> field x ''id'' = Some (JStr a)"
  by (cases x) (auto simp: has_id_def field_def split: option.splits)

lemma others_entries:
  "\<forall>x \<in> set xs. is_entry x \<Longrightarrow> others xs a = Inr (filter (\<lambda>x. \<not> has_id a x) xs)"
proof (induction xs)
  case Nil
  show ?case by simp
next
  case (Cons x xs)
  then obtain s where s: "getitem x (str ''id'') = Inr (JStr s)"
    using is_entry_getitem [of x] by auto
  then have "has_id a x \<longleftrightarrow> s = a" by (auto simp: has_id_def)
  with Cons s show ?case by auto
qed

lemma filter_unique:
  "unique_ids xs \<Longrightarrow> \<exists>x \<in> set xs. has_id a x \<Longrightarrow>
   length (filter (\<lambda>x. \<not> has_id a x) xs) + 1 = length xs"
proof (induction xs)
  case Nil
  then show ?case by simp
next
  case (Cons x xs)
  show ?case
  proof (cases "has_id a x")
    case True
    then have "field x ''id'' = Some (JStr a)" by (simp add: has_id_field)
    with Cons.prems(1) have "Some (JStr a) \<notin> (\<lambda>x. field x ''id'') ` set xs"
      by (simp add: unique_ids_def)
    then have "\<forall>y \<in> set xs. \<not> has_id a y"
      by (force simp: has_id_field)
    then have "filter (\<lambda>x. \<not> has_id a x) xs = xs" by (simp add: filter_id_conv)
    with True show ?thesis by simp
  next
    case False
    with Cons.prems have "unique_ids xs" "\<exists>y \<in> set xs. has_id a y"
      by (auto simp: unique_ids_def)
    with Cons.IH False show ?thesis by simp
  qed
qed

lemma filter_absent: "\<forall>x \<in> set xs. \<not> has_id a x \<Longrightarrow> filter (\<lambda>x. \<not> has_id a x) xs = xs"
  by (simp add: filter_id_conv)

lemma remove_app_catalog_entries:
  assumes "apps_of catalog = Some xs" and "\<forall>x \<in> set xs. is_entry x"
  shows "remove_app_catalog catalog a
     = Inr (with_apps catalog (filter (\<lambda>x. \<not> has_id a x) xs),
            length (filter (\<lambda>x. \<not> has_id a x) xs) < length xs)"
proof -
  from assms(1) obtain kvs where c: "catalog = JObj kvs" "map_of kvs (str ''apps'') = Some (JArr xs)"
    by (cases catalog) (auto simp: apps_of_def field_def split: option.splits json.splits)
  show ?thesis
    using c others_entries [OF assms(2), of a]
    by (simp add: remove_app_catalog_def with_apps_def)
qed

lemma remove_app_present_run:
  assumes "apps_of (load_catalog c) = Some xs" and "\<forall>x \<in> set xs. is_entry x"
    and "\<exists>x \<in> set xs. has_id a x" and "unique_ids xs"
    and "\<not> has_float (load_catalog c)" and "put_failure c = None"
  shows "remove_app c a
     = (Inr True, [str ''Removed app: '' @ a],
        after_put c (with_apps (load_catalog c) (filter (\<lambda>x. \<not> has_id a x) xs)))"
proof -
  let ?kept = "filter (\<lambda>x. \<not> has_id a x) xs"
  have lt: "length ?kept < length xs"
    using filter_unique [OF assms(4) assms(3)] by simp
  have nf: "\<not> has_float (with_apps (load_catalog c) ?kept)"
    using has_float_apps [OF assms(5) assms(1)]
    by (intro has_float_with_apps [OF assms(5)]) auto
  show ?thesis
    using remove_app_catalog_entries [OF assms(1,2), of a] lt
    by (simp add: remove_app_def save_catalog_ok [OF nf assms(6)])
qed

lemma remove_app_absent_run:
  assumes "apps_of (load_catalog c) = Some xs" and "\<forall>x \<in> set xs. is_entry x"
    and "\<forall>x \<in> set xs. \<not> has_id a x"
  shows "remove_app c a = (Inr False, [str ''App not found: '' @ a], c)"
  using remove_app_catalog_entries [OF assms(1,2), of a] filter_absent [OF assms(3)]
  by (simp add: remove_app_def)

text \<open>
  C2. On a catalog whose entries are objects with a string \<^verbatim>\<open>id\<close>: when an entry has the
  given id, the ids are unique and the write succeeds, \<open>remove_app\<close> returns \<^verbatim>\<open>True\<close> and
  saves the catalog without that entry, one entry less than before; when no entry has the
  id, it returns \<^verbatim>\<open>False\<close> and the client is the same as before, so nothing was written
  and the stored catalog is unchanged.
\<close>

theorem remove_app_count:
  assumes "apps_of (load_catalog c) = Some xs" and "\<forall>x \<in> set xs. is_entry x"
  shows "((\<exists>x \<in> set xs. has_id app_id x) \<and> unique_ids xs \<and> \<not> has_float (load_catalog c)
          \<and> put_failure c = None \<longrightarrow>
          (let kept = filter (\<lambda>x. \<not> has_id app_id x) xs in
           remove_app c app_id
             = (Inr True, [str ''Removed app: '' @ app_id],
                after_put c (with_apps (load_catalog c) kept))
           \<and> apps_of (with_apps (load_catalog c) kept) = Some kept
           \<and> length kept + 1 = length xs))
       \<and> ((\<forall>x \<in> set xs. \<not> has_id app_id x) \<longrightarrow>
           remove_app c app_id = (Inr False, [str ''App not found: '' @ app_id], c)
           \<and> put_calls (snd (snd (remove_app c app_id))) = put_calls c
           \<and> load_catalog (snd (snd (remove_app c app_id))) = load_catalog c)"
  using remove_app_present_run [OF assms, of app_id] remove_app_absent_run [OF assms, of app_id]
    filter_unique [of xs app_id] apps_of_with_apps [OF assms(1)]
  by (auto simp: Let_def)

theorem remove_app_count_witness:
  "apps_of (load_catalog store_one) = Some [weather]
   \<and> is_entry weather
   \<and> has_id (str ''weather'') weather
   \<and> unique_ids [weather]
   \<and> \<not> has_float (load_catalog store_one)
   \<and> put_failure store_one = None
   \<and> remove_app store_one (str ''weather'')
       = (Inr True, [str ''Removed app: '' @ str ''weather''],
          after_put store_one (with_apps (load_catalog store_one) []))
   \<and> apps_of (with_apps (load_catalog store_one) []) = Some []
   \<and> \<not> has_id (str ''clock'') weather
   \<and> remove_app store_one (str ''clock'')
       = (Inr False, [str ''App not found: '' @ str ''clock''], store_one)
   \<and> apps_of (load_catalog store_missing) = Some []
   \<and> remove_app store_missing (str ''nonexistent'')
       = (Inr False, [str ''App not found: '' @ str ''nonexistent''], store_missing)
   \<and> put_calls (snd (snd (remove_app store_missing (str ''nonexistent'')))) = []"
proof -
  have e: "\<forall>x \<in> set ([] :: json list). is_entry x" by simp
  have u: "unique_ids [weather]" by (simp add: unique_ids_def)
  have p: "put_calls store_missing = []" by (simp add: store_missing_def)
  show ?thesis
    using store_one_apps weather_entry weather_has_id u store_one_no_float store_one_ok(2)
      store_missing_apps p
      remove_app_count [OF store_one_apps weather_entry, of "str ''weather''"]
      remove_app_count [OF store_one_apps weather_entry, of "str ''clock''"]
      remove_app_count [OF store_missing_apps e, of "str ''nonexistent''"]
    by (simp add: Let_def)
qed

subsection \<open>Listing\<close>

lemma created_keys_dated:
  "\<forall>x \<in> set xs. dated x \<Longrightarrow> \<exists>ks. created_keys xs = Inr ks \<and> list_all is_str ks"
proof (induction xs)
  case Nil
  show ?case by simp
next
  case (Cons x xs)
  then obtain ks where ks: "created_keys xs = Inr ks" "list_all is_str ks" by auto
  from Cons.prems have "dated x" by simp
  then obtain k where "dict_get x (str ''created_at'') (JStr []) = Inr k" "is_str k"
    by (cases x) (auto simp: dated_def split: option.splits)
  with ks show ?case by simp
qed

lemma sorted_apps_dated:
  "\<forall>x \<in> set xs. dated x \<Longrightarrow> sorted_apps xs = Inr (sort_key created_key xs)"
  using created_keys_dated [of xs] by (auto simp: sorted_apps_def)

lemma print_rows_ok:
  "\<forall>x \<in> set xs. \<not> isl (row x) \<Longrightarrow>
   print_rows xs out = (Inr (), out @ map (\<lambda>x. projr (row x)) xs)"
proof (induction xs arbitrary: out)
  case Nil
  show ?case by simp
next
  case (Cons x xs)
  from Cons.prems obtain l where l: "row x = Inr l" by (cases "row x") auto
  from Cons.prems have "print_rows xs (out @ [l]) = (Inr (), (out @ [l]) @ map (\<lambda>x. projr (row x)) xs)"
    by (intro Cons.IH) simp
  with l show ?case by simp
qed

lemma getitem_apps:
  "apps_of catalog = Some xs \<Longrightarrow> getitem catalog (str ''apps'') = Inr (JArr xs)"
  by (cases catalog) (auto simp: apps_of_def field_def split: option.splits json.splits)

lemma list_apps_empty:
  "apps_of (load_catalog c) = Some [] \<Longrightarrow> list_apps c = (Inr (), [str ''Catalog is empty''])"
  by (simp add: list_apps_def getitem_apps)

lemma list_apps_run:
  assumes "apps_of (load_catalog c) = Some xs" and "xs \<noteq> []"
    and "\<forall>x \<in> set xs. dated x" and "\<forall>x \<in> set xs. \<not> isl (row x)"
  shows "list_apps c =
    (Inr (), header @ map (\<lambda>x. projr (row x)) (sort_key created_key xs) @ [total_line (length xs)])"
proof -
  have "\<forall>x \<in> set (sort_key created_key xs). \<not> isl (row x)"
    using assms(4) by simp
  then have "print_rows (sort_key created_key xs) header
      = (Inr (), header @ map (\<lambda>x. projr (row x)) (sort_key created_key xs))"
    by (rule print_rows_ok)
  then show ?thesis
    using assms(1,2) sorted_apps_dated [OF assms(3)]
    by (simp add: list_apps_def getitem_apps total_line_def)
qed

lemma sorted_least_prefix:
  fixes f :: "'a \<Rightarrow> 'b::linorder"
  assumes "sorted (map f ys)" and "\<And>y. m \<le> f y"
  shows "take (length (filter (\<lambda>y. f y = m) ys)) ys = filter (\<lambda>y. f y = m) ys"
  using assms(1)
proof (induction ys)
  case Nil
  show ?case by simp
next
  case (Cons y ys)
  show ?case
  proof (cases "f y = m")
    case True
    with Cons show ?thesis by simp
  next
    case False
    with assms(2) [of y] have "m < f y" by simp
    with Cons.prems have "\<forall>z \<in> set ys. f z \<noteq> m" by auto
    then have "filter (\<lambda>y. f y = m) ys = []" by (simp add: filter_empty_conv)
    with False show ?thesis by simp
  qed
qed

lemma created_key_missing: "dated x \<Longrightarrow> field x ''created_at'' = None \<Longrightarrow> created_key x = []"
  by (cases x) (auto simp: field_def)

text \<open>
  C5. \<open>list_apps\<close> goes through the entries in ascending order of \<^verbatim>\<open>created_at\<close>, whatever
  the order in which the catalog holds them: for a catalog of entries that can be printed
  and whose \<^verbatim>\<open>created_at\<close> is a string or is missing, the rows printed between the header
  and the total are those of the list \<open>ordered\<close> that \<open>sorted_apps\<close> returns; its keys
  ascend; it holds the entries of the catalog, those of equal key in their order in the
  catalog; an entry without \<^verbatim>\<open>created_at\<close> has the key \<^verbatim>\<open>""\<close>, and the entries of that key
  come first. An empty catalog prints \<^verbatim>\<open>Catalog is empty\<close>.
\<close>

theorem list_apps_sorted:
  assumes "apps_of (load_catalog c) = Some xs"
    and "\<forall>x \<in> set xs. dated x \<and> \<not> isl (row x)"
  shows "\<exists>ordered.
      sorted_apps xs = Inr ordered
    \<and> list_apps c =
        (if xs = [] then (Inr (), [str ''Catalog is empty''])
         else (Inr (), header @ map (\<lambda>x. projr (row x)) ordered @ [total_line (length xs)]))
    \<and> sorted (map created_key ordered)
    \<and> length ordered = length xs
    \<and> (\<forall>k. filter (\<lambda>x. created_key x = k) ordered = filter (\<lambda>x. created_key x = k) xs)
    \<and> (\<forall>x \<in> set xs. field x ''created_at'' = None \<longrightarrow> created_key x = [])
    \<and> take (length (filter (\<lambda>x. created_key x = []) xs)) ordered
        = filter (\<lambda>x. created_key x = []) xs"
proof -
  let ?o = "sort_key created_key xs"
  from assms(2) have d: "\<forall>x \<in> set xs. dated x" and r: "\<forall>x \<in> set xs. \<not> isl (row x)"
    by auto
  have 1: "sorted_apps xs = Inr ?o" using d by (rule sorted_apps_dated)
  have 2: "list_apps c =
        (if xs = [] then (Inr (), [str ''Catalog is empty''])
         else (Inr (), header @ map (\<lambda>x. projr (row x)) ?o @ [total_line (length xs)]))"
    using list_apps_empty [of c] list_apps_run [OF assms(1) _ d r] assms(1) by auto
  have 3: "sorted (map created_key ?o)" by (rule sorted_sort_key)
  have 4: "length ?o = length xs" by (rule length_sort)
  have 5: "\<forall>k. filter (\<lambda>x. created_key x = k) ?o = filter (\<lambda>x. created_key x = k) xs"
    by (simp add: sort_key_stable)
  have 6: "\<forall>x \<in> set xs. field x ''created_at'' = None \<longrightarrow> created_key x = []"
    using d by (auto intro: created_key_missing)
  have "take (length (filter (\<lambda>x. created_key x = []) ?o)) ?o = filter (\<lambda>x. created_key x = []) ?o"
    using 3 by (rule sorted_least_prefix) simp
  then have 7: "take (length (filter (\<lambda>x. created_key x = []) xs)) ?o
        = filter (\<lambda>x. created_key x = []) xs"
    by (simp add: sort_key_stable)
  from 1 2 3 4 5 6 7 show ?thesis by blast
qed

lemma wf_clock: "wf_json clock"
  unfolding clock_def by (rule wf_new_entry) simp_all

lemma wf_legacy: "wf_json legacy"
  by (simp add: legacy_def)

lemma wf_catalog_three: "wf_json catalog_three"
  by (simp add: catalog_three_def wf_clock wf_legacy wf_weather)

lemma load_store_three: "load_catalog store_three = catalog_three"
  unfolding store_three_def by (rule load_after_put) (simp_all add: wf_catalog_three store_missing_def)

lemma store_three_apps: "apps_of (load_catalog store_three) = Some [clock, legacy, weather]"
  by (simp add: load_store_three catalog_three_def apps_of_def field_def)

lemma three_keys:
  "created_key clock = str ''2026-02-01T00:00:00+00:00''"
  "created_key legacy = []"
  "created_key weather = str ''2026-01-01T00:00:00+00:00''"
  by (simp_all add: clock_def legacy_def weather_def new_entry_def)

lemma three_order:
  "\<not> str ''2026-02-01T00:00:00+00:00'' \<le> str ''2026-01-01T00:00:00+00:00''"
  "str ''2026-02-01T00:00:00+00:00'' \<noteq> []"
  "str ''2026-01-01T00:00:00+00:00'' \<noteq> []"
  by (simp_all add: str_def)

lemma sort_three: "sort_key created_key [clock, legacy, weather] = [legacy, weather, clock]"
  by (simp add: three_keys three_order)

lemma three_dated_all: "\<forall>x \<in> set [clock, legacy, weather]. dated x"
  by (simp add: dated_def clock_def legacy_def weather_def new_entry_def)

lemma sorted_three: "sorted_apps [clock, legacy, weather] = Inr [legacy, weather, clock]"
  using sorted_apps_dated [OF three_dated_all] by (simp only: sort_three)

lemma three_dated: "dated clock" "dated legacy" "dated weather"
  by (simp_all add: dated_def clock_def legacy_def weather_def new_entry_def)

lemma three_rows: "\<not> isl (row clock)" "\<not> isl (row legacy)" "\<not> isl (row weather)"
  by (simp_all add: row_def clock_def legacy_def weather_def new_entry_def)

lemma legacy_undated: "field legacy ''created_at'' = None"
  by (simp add: field_def legacy_def)

theorem list_apps_sorted_witness:
  "apps_of (load_catalog store_three) = Some [clock, legacy, weather]
   \<and> dated clock \<and> \<not> isl (row clock) \<and> dated legacy \<and> \<not> isl (row legacy)
   \<and> dated weather \<and> \<not> isl (row weather)
   \<and> sorted_apps [clock, legacy, weather] = Inr [legacy, weather, clock]
   \<and> list_apps store_three =
       (Inr (), header @ [projr (row legacy), projr (row weather), projr (row clock)]
                 @ [total_line 3])
   \<and> sorted (map created_key [legacy, weather, clock])
   \<and> field legacy ''created_at'' = None \<and> created_key legacy = []"
  using list_apps_sorted [of store_three "[clock, legacy, weather]"]
  by (simp add: store_three_apps three_dated three_rows sorted_three legacy_undated three_keys
      three_order numeral_3_eq_3)

end
